theory Spec2Isabelle
  imports Main "HOL-Library.Sublist"
begin

section \<open>The image scraper of \<^verbatim>\<open>backend/google_image_scraper.py\<close>\<close>

text \<open>
  The program is a small web service: \<^verbatim>\<open>start_scrape\<close> creates a job record in the
  dictionary \<^verbatim>\<open>job_statuses\<close> and schedules \<^verbatim>\<open>scrape_images_task\<close> as a background task,
  \<^verbatim>\<open>get_job_status\<close> reads a record and \<^verbatim>\<open>cancel_job\<close> marks a pending one cancelled.
  The task drives a browser, collects image URLs (\<^verbatim>\<open>scrape_all_images\<close>) and stores each
  one with \<^verbatim>\<open>save_image\<close>.

  The embedding is shallow. Mutable state is a record passed through every function;
  an exception is a value; a loop is a recursive function. What the program gets from
  outside its own text (the browser, the network, the file system, the clock, the random
  job identifier, and the library routines \<^verbatim>\<open>int\<close> and \<^verbatim>\<open>base64.b64decode\<close>) is read
  from a record \<open>env\<close>, so every theorem holds for whatever these deliver. Strings are
  \<open>string\<close>; Python integers are \<open>int\<close>. Logging and \<^verbatim>\<open>time.sleep\<close> have no effect on
  the state and are left out. Paths are joined as on POSIX.
\<close>

subsection \<open>Exceptions\<close>

text \<open>
  \<open>HTTPException c d\<close> carries the status code and the fixed part of the detail text;
  the text of the wrapped cause, which lines 118, 142 and 180 append, is left out.
  The other constructors stand for what the libraries and the interpreter raise.
\<close>

datatype exn =
    HTTPException nat string
  | KeyError string
  | ValueError
  | BinasciiError
  | RequestException
  | OSError
  | WebDriverException
  | ValidationError

subsection \<open>Data\<close>

text \<open>The dictionary stored per job (lines 156-161).\<close>

record job =
  status :: string
  images_scraped :: int
  total_images :: "int option"
  folder_path :: string

text \<open>The pydantic models of lines 33-48.\<close>

record scrape_request =
  search_term :: string
  num_images :: "int option"
  folder_name :: "string option"

record scrape_response =
  resp_job_id :: string
  resp_status :: string
  resp_folder_path :: string

record job_status =
  js_job_id :: string
  js_status :: string
  js_images_scraped :: int
  js_total_images :: int
  js_folder_path :: string

text \<open>
  An \<^verbatim>\<open>img\<close> element as \<^verbatim>\<open>scrape_all_images\<close> reads it: the four attributes it asks
  for, each \<open>None\<close> when \<^verbatim>\<open>get_attribute\<close> returns \<^verbatim>\<open>None\<close>.
\<close>

record img =
  src :: "string option"
  data_src :: "string option"
  width :: "string option"
  height :: "string option"

text \<open>What \<^verbatim>\<open>requests.get\<close> does: it raises, or it returns a response.\<close>

datatype http_outcome = Raises | Response nat string

text \<open>
  A background task added by \<^verbatim>\<open>background_tasks.add_task\<close>, with the point it has
  reached: not started (the four arguments of \<^verbatim>\<open>scrape_images_task\<close>), in the loop of
  lines 130-134 (job id, search query, folder and the items of \<^verbatim>\<open>enumerate\<close> still to
  come), or ended (with the exception it raised, if any).
\<close>

datatype task =
    Scheduled string string "int option" string
  | Looping string string string "(nat \<times> string) list"
  | Ended "exn option"

text \<open>
  The state: the dictionary \<^verbatim>\<open>job_statuses\<close>, the files written, the number of
  \<^verbatim>\<open>requests.get\<close> calls made so far, the number of browsers created and not quit,
  and the background tasks in the order they were added.
\<close>

record state =
  job_statuses :: "string \<rightharpoonup> job"
  files :: "string \<rightharpoonup> string"
  gets :: nat
  open_drivers :: nat
  background :: "task list"

text \<open>
  The environment. \<open>uuid4\<close> and \<open>timestamp\<close> are what \<^verbatim>\<open>uuid.uuid4()\<close> and
  \<^verbatim>\<open>datetime.now().strftime(...)\<close> produce; \<open>can_mkdir\<close> tells whether \<^verbatim>\<open>os.makedirs\<close>
  succeeds; \<open>driver_ok\<close> whether the browser starts; \<open>nav_ok\<close> whether \<^verbatim>\<open>driver.get\<close>
  returns; \<open>scroll_height k\<close> is the page height of the \<open>k\<close>-th measurement of
  \<^verbatim>\<open>scroll_down\<close> (\<open>None\<close>: \<^verbatim>\<open>execute_script\<close> raises); \<open>dom_images\<close> is the result of
  \<^verbatim>\<open>find_elements\<close> (\<open>None\<close>: it raises); \<open>parse_int\<close> is \<^verbatim>\<open>int\<close> on a string and
  \<open>b64decode\<close> is \<^verbatim>\<open>base64.b64decode\<close> (\<open>None\<close>: they raise); \<open>http_get url k\<close> is the
  outcome of \<^verbatim>\<open>requests.get(url)\<close> when \<open>k\<close> requests were made before it; \<open>can_write\<close>
  tells whether a file can be opened and written; \<open>quit_ok\<close> whether \<^verbatim>\<open>driver.quit()\<close>
  returns.
\<close>

record env =
  uuid4 :: string
  timestamp :: string
  can_mkdir :: "string \<Rightarrow> bool"
  driver_ok :: bool
  nav_ok :: "string \<Rightarrow> bool"
  scroll_height :: "nat \<Rightarrow> nat option"
  dom_images :: "img list option"
  parse_int :: "string \<Rightarrow> int option"
  b64decode :: "string \<Rightarrow> string option"
  http_get :: "string \<Rightarrow> nat \<Rightarrow> http_outcome"
  can_write :: "string \<Rightarrow> bool"
  quit_ok :: bool

type_synonym result = "exn option \<times> state"

subsection \<open>Python primitives\<close>

text \<open>Truth of an optional string: \<^verbatim>\<open>None\<close> and the empty string are false.\<close>

fun truthy :: "string option \<Rightarrow> bool" where
  "truthy None = False"
| "truthy (Some s) = (s \<noteq> [])"

text \<open>\<^verbatim>\<open>a or b\<close>.\<close>

definition py_or :: "string option \<Rightarrow> string option \<Rightarrow> string option" where
  "py_or a b = (if truthy a then a else b)"

text \<open>\<^verbatim>\<open>needle in s\<close> on strings.\<close>

fun str_contains :: "string \<Rightarrow> string \<Rightarrow> bool" where
  "str_contains needle [] = (needle = [])"
| "str_contains needle (c # cs) = (prefix needle (c # cs) \<or> str_contains needle cs)"

text \<open>\<^verbatim>\<open>xs[:n]\<close>: a negative bound counts from the end, \<^verbatim>\<open>None\<close> keeps everything.\<close>

definition py_slice_to :: "int option \<Rightarrow> 'a list \<Rightarrow> 'a list" where
  "py_slice_to n xs =
     (case n of
        None \<Rightarrow> xs
      | Some k \<Rightarrow> if 0 \<le> k then take (nat k) xs else take (nat (int (length xs) + k)) xs)"

text \<open>\<^verbatim>\<open>s.split(',', 1)\<close> unpacked into two names: \<open>None\<close> when there is no comma.\<close>

definition split_comma :: "string \<Rightarrow> (string \<times> string) option" where
  "split_comma s =
     (if CHR '','' \<in> set s
      then Some (takeWhile (\<lambda>c. c \<noteq> CHR '','') s, tl (dropWhile (\<lambda>c. c \<noteq> CHR '','') s))
      else None)"

text \<open>\<^verbatim>\<open>os.path.join(a, b)\<close>.\<close>

definition path_join :: "string \<Rightarrow> string \<Rightarrow> string" where
  "path_join a b =
     (if prefix ''/'' b then b
      else if a = [] \<or> suffix ''/'' a then a @ b
      else a @ ''/'' @ b)"

text \<open>The decimal text of a number, as an f-string prints it.\<close>

fun show_nat :: "nat \<Rightarrow> string" where
  "show_nat n =
     (if n < 10 then [''0123456789'' ! n]
      else show_nat (n div 10) @ [''0123456789'' ! (n mod 10)])"

declare show_nat.simps [simp del]

subsection \<open>\<^verbatim>\<open>scroll_down\<close> (lines 67-79)\<close>

fun scroll_loop :: "env \<Rightarrow> nat \<Rightarrow> nat \<Rightarrow> nat \<Rightarrow> exn option" where
  "scroll_loop w 0 k last_height = None"
| "scroll_loop w (Suc n) k last_height =
     (case scroll_height w k of
        None \<Rightarrow> Some WebDriverException
      | Some new_height \<Rightarrow>
          if new_height = last_height then None
          else scroll_loop w n (Suc k) new_height)"

definition scroll_down :: "env \<Rightarrow> nat \<Rightarrow> exn option" where
  "scroll_down w scroll_limit =
     (case (case scroll_height w 0 of
              None \<Rightarrow> Some WebDriverException
            | Some last_height \<Rightarrow> scroll_loop w scroll_limit 1 last_height) of
        None \<Rightarrow> None
      | Some e \<Rightarrow> Some (HTTPException 500 ''Failed to scroll page''))"

subsection \<open>\<^verbatim>\<open>scrape_all_images\<close> (lines 81-95)\<close>

text \<open>\<^verbatim>\<open>int(img.get_attribute(...) or 0)\<close>: \<open>None\<close> when \<^verbatim>\<open>int\<close> raises.\<close>

definition dimension :: "env \<Rightarrow> string option \<Rightarrow> int option" where
  "dimension w a =
     (case a of
        None \<Rightarrow> Some 0
      | Some s \<Rightarrow> if s = [] then Some 0 else parse_int w s)"

text \<open>The loop of lines 85-91, with the list \<^verbatim>\<open>image_urls\<close> built so far.\<close>

fun scrape_loop :: "env \<Rightarrow> img list \<Rightarrow> string list \<Rightarrow> exn + string list" where
  "scrape_loop w [] image_urls = Inr image_urls"
| "scrape_loop w (i # images) image_urls =
     (case py_or (src i) (data_src i) of
        None \<Rightarrow> scrape_loop w images image_urls
      | Some image_url \<Rightarrow>
          if image_url \<noteq> [] \<and> \<not> str_contains ''data:image/gif'' image_url then
            (case dimension w (width i) of
               None \<Rightarrow> Inl ValueError
             | Some wd \<Rightarrow>
                 (case dimension w (height i) of
                    None \<Rightarrow> Inl ValueError
                  | Some ht \<Rightarrow>
                      if 100 \<le> wd \<and> 100 \<le> ht
                      then scrape_loop w images (image_urls @ [image_url])
                      else scrape_loop w images image_urls))
          else scrape_loop w images image_urls)"

definition scrape_all_images :: "env \<Rightarrow> exn + string list" where
  "scrape_all_images w =
     (case (case dom_images w of
              None \<Rightarrow> Inl WebDriverException
            | Some images \<Rightarrow> scrape_loop w images []) of
        Inl e \<Rightarrow> Inl (HTTPException 500 ''Failed to scrape images'')
      | Inr image_urls \<Rightarrow> Inr image_urls)"

subsection \<open>\<^verbatim>\<open>save_image\<close> (lines 97-118)\<close>

text \<open>\<^verbatim>\<open>with open(file_path, 'wb') as f: f.write(data)\<close>.\<close>

definition write_file :: "env \<Rightarrow> string \<Rightarrow> string \<Rightarrow> state \<Rightarrow> result" where
  "write_file w file_path content s =
     (if can_write w file_path
      then (None, s\<lparr>files := (files s)(file_path \<mapsto> content)\<rparr>)
      else (Some OSError, s))"

text \<open>
  The retry loop of lines 107-115; the numeral is the number of attempts still to make.
  A response with status 200 is written and ends the loop; any other response leads to
  the next attempt; an exception of \<^verbatim>\<open>requests.get\<close> leaves the loop.
\<close>

fun fetch_loop :: "env \<Rightarrow> string \<Rightarrow> string \<Rightarrow> nat \<Rightarrow> state \<Rightarrow> result" where
  "fetch_loop w image_url file_path 0 s = (None, s)"
| "fetch_loop w image_url file_path (Suc n) s =
     (case http_get w image_url (gets s) of
        Raises \<Rightarrow> (Some RequestException, s\<lparr>gets := Suc (gets s)\<rparr>)
      | Response status_code content \<Rightarrow>
          if status_code = 200
          then write_file w file_path content (s\<lparr>gets := Suc (gets s)\<rparr>)
          else fetch_loop w image_url file_path n (s\<lparr>gets := Suc (gets s)\<rparr>))"

definition save_image :: "env \<Rightarrow> string \<Rightarrow> string \<Rightarrow> string \<Rightarrow> nat \<Rightarrow> state \<Rightarrow> result" where
  "save_image w image_url folder file_name retry_count s =
     (case (if prefix ''data:image/'' image_url then
              (case split_comma image_url of
                 None \<Rightarrow> (Some ValueError, s)
               | Some (header, encoded) \<Rightarrow>
                   (case b64decode w encoded of
                      None \<Rightarrow> (Some BinasciiError, s)
                    | Some image_data \<Rightarrow>
                        write_file w (path_join folder (file_name @ ''.jpg'')) image_data s))
            else fetch_loop w image_url (path_join folder (file_name @ ''.jpg'')) retry_count s) of
        (None, s') \<Rightarrow> (None, s')
      | (Some e, s') \<Rightarrow> (Some (HTTPException 500 ''Failed to save image''), s'))"

subsection \<open>\<^verbatim>\<open>scrape_images_task\<close> (lines 120-142)\<close>

text \<open>\<^verbatim>\<open>job_statuses[job_id]["images_scraped"] = index\<close>; a missing key raises.\<close>

definition set_images_scraped :: "string \<Rightarrow> int \<Rightarrow> state \<Rightarrow> result" where
  "set_images_scraped job_id index s =
     (case job_statuses s job_id of
        None \<Rightarrow> (Some (KeyError job_id), s)
      | Some j \<Rightarrow> (None, s\<lparr>job_statuses := (job_statuses s)(job_id \<mapsto> j\<lparr>images_scraped := index\<rparr>)\<rparr>))"

text \<open>\<^verbatim>\<open>job_statuses[job_id]["status"] = v\<close>; a missing key raises.\<close>

definition set_status :: "string \<Rightarrow> string \<Rightarrow> state \<Rightarrow> result" where
  "set_status job_id v s =
     (case job_statuses s job_id of
        None \<Rightarrow> (Some (KeyError job_id), s)
      | Some j \<Rightarrow> (None, s\<lparr>job_statuses := (job_statuses s)(job_id \<mapsto> j\<lparr>status := v\<rparr>)\<rparr>))"

text \<open>
  Lines 122-128: create the browser, load the result page, scroll, collect the URLs and
  cut the list to \<^verbatim>\<open>num_images\<close>.
\<close>

definition open_page :: "env \<Rightarrow> string \<Rightarrow> int option \<Rightarrow> state \<Rightarrow> (exn + string list) \<times> state" where
  "open_page w query n s =
     (if \<not> driver_ok w then (Inl (HTTPException 500 ''Failed to initialize web driver''), s)
      else if \<not> nav_ok w (''https://www.google.com/search?q='' @ query @ ''&tbm=isch'')
      then (Inl WebDriverException, s\<lparr>open_drivers := Suc (open_drivers s)\<rparr>)
      else
        (case scroll_down w 5 of
           Some e \<Rightarrow> (Inl e, s\<lparr>open_drivers := Suc (open_drivers s)\<rparr>)
         | None \<Rightarrow>
             (case scrape_all_images w of
                Inl e \<Rightarrow> (Inl e, s\<lparr>open_drivers := Suc (open_drivers s)\<rparr>)
              | Inr image_urls \<Rightarrow>
                  (Inr (py_slice_to n image_urls), s\<lparr>open_drivers := Suc (open_drivers s)\<rparr>))))"

text \<open>
  One pass through the loop body, lines 131-134, for the item \<open>(index, image_url)\<close>.
  The test of line 131 asks whether the key is in the dictionary.
\<close>

definition loop_body :: "env \<Rightarrow> string \<Rightarrow> string \<Rightarrow> string \<Rightarrow> nat \<times> string \<Rightarrow> state \<Rightarrow> result" where
  "loop_body w job_id query folder item s =
     (if job_id \<in> dom (job_statuses s) then
        (case save_image w (snd item) folder (query @ ''_'' @ show_nat (fst item)) 3 s of
           (Some e, s') \<Rightarrow> (Some e, s')
         | (None, s') \<Rightarrow> set_images_scraped job_id (int (fst item)) s')
      else (None, s))"

fun task_loop :: "env \<Rightarrow> string \<Rightarrow> string \<Rightarrow> string \<Rightarrow> (nat \<times> string) list \<Rightarrow> state \<Rightarrow> result" where
  "task_loop w job_id query folder [] s = (None, s)"
| "task_loop w job_id query folder (item # items) s =
     (case loop_body w job_id query folder item s of
        (Some e, s') \<Rightarrow> (Some e, s')
      | (None, s') \<Rightarrow> task_loop w job_id query folder items s')"

text \<open>
  Lines 136-137: mark the job completed, then quit the browser. Both lines stand inside
  the \<^verbatim>\<open>try\<close>, so when \<^verbatim>\<open>driver.quit()\<close> raises, the status is already \<^verbatim>\<open>completed\<close> and
  the exception goes to the handler; the browser then counts as still open.
\<close>

definition finish_task :: "env \<Rightarrow> string \<Rightarrow> state \<Rightarrow> result" where
  "finish_task w job_id s =
     (case set_status job_id ''completed'' s of
        (Some e, s') \<Rightarrow> (Some e, s')
      | (None, s') \<Rightarrow>
          if quit_ok w then (None, s'\<lparr>open_drivers := open_drivers s' - 1\<rparr>)
          else (Some WebDriverException, s'))"

text \<open>The handler, lines 139-142: mark the job failed and raise.\<close>

definition on_error :: "string \<Rightarrow> state \<Rightarrow> result" where
  "on_error job_id s =
     (case set_status job_id ''failed'' s of
        (Some e, s') \<Rightarrow> (Some e, s')
      | (None, s') \<Rightarrow> (Some (HTTPException 500 ''Scraping task failed''), s'))"

definition scrape_images_task :: "env \<Rightarrow> string \<Rightarrow> string \<Rightarrow> int option \<Rightarrow> string \<Rightarrow> state \<Rightarrow> result" where
  "scrape_images_task w job_id query n folder s =
     (case open_page w query n s of
        (Inl e, s1) \<Rightarrow> on_error job_id s1
      | (Inr image_urls, s1) \<Rightarrow>
          (case task_loop w job_id query folder (enumerate 1 image_urls) s1 of
             (Some e, s2) \<Rightarrow> on_error job_id s2
           | (None, s2) \<Rightarrow>
               (case finish_task w job_id s2 of
                  (Some e, s3) \<Rightarrow> on_error job_id s3
                | (None, s3) \<Rightarrow> (None, s3))))"

subsection \<open>The request handlers (lines 144-205)\<close>

text \<open>Line 151: the folder name of the request, or a name made from the time.\<close>

definition chosen_folder :: "env \<Rightarrow> scrape_request \<Rightarrow> string" where
  "chosen_folder w request =
     (case folder_name request of
        None \<Rightarrow> ''scraped_images_'' @ timestamp w
      | Some name \<Rightarrow> if name = [] then ''scraped_images_'' @ timestamp w else name)"

definition start_scrape :: "env \<Rightarrow> scrape_request \<Rightarrow> state \<Rightarrow> (exn + scrape_response) \<times> state" where
  "start_scrape w request s =
     (let path = path_join ''GoogleSearchImages'' (chosen_folder w request)
      in if can_mkdir w path then
           (Inr \<lparr>resp_job_id = uuid4 w, resp_status = ''pending'', resp_folder_path = path\<rparr>,
            s\<lparr>job_statuses := (job_statuses s)(uuid4 w \<mapsto>
                 \<lparr>status = ''pending'', images_scraped = 0,
                  total_images = num_images request, folder_path = path\<rparr>),
              background := background s @
                 [Scheduled (uuid4 w) (search_term request) (num_images request) path]\<rparr>)
         else (Inl (HTTPException 500 ''Failed to start scraping''), s))"

text \<open>
  \<^verbatim>\<open>JobStatus\<close> declares \<^verbatim>\<open>total_images: int\<close>, so building it from a record that holds
  \<^verbatim>\<open>None\<close> there is refused by the model's validation.
\<close>

definition get_job_status :: "string \<Rightarrow> state \<Rightarrow> exn + job_status" where
  "get_job_status job_id s =
     (case job_statuses s job_id of
        None \<Rightarrow> Inl (HTTPException 404 ''Job not found'')
      | Some j \<Rightarrow>
          (case total_images j of
             None \<Rightarrow> Inl ValidationError
           | Some t \<Rightarrow>
               Inr \<lparr>js_job_id = job_id, js_status = status j,
                    js_images_scraped = images_scraped j, js_total_images = t,
                    js_folder_path = folder_path j\<rparr>))"

definition cancel_job :: "string \<Rightarrow> state \<Rightarrow> (exn + string) \<times> state" where
  "cancel_job job_id s =
     (case job_statuses s job_id of
        None \<Rightarrow> (Inl (HTTPException 404 ''Job not found''), s)
      | Some j \<Rightarrow>
          if status j = ''pending''
          then (Inr ''Job cancelled successfully'',
                s\<lparr>job_statuses := (job_statuses s)(job_id \<mapsto> j\<lparr>status := ''cancelled''\<rparr>)\<rparr>)
          else (Inl (HTTPException 400 ''Job cannot be cancelled in its current state''), s))"

subsection \<open>The task in steps, and the service as a sequence of events\<close>

text \<open>
  Requests are served while tasks run. To speak about the states in between, the task is
  cut at the loop: one step opens the page, one step runs one pass of the loop body, one
  step finishes. Every step ends in the handler when it raises. Which of these
  interleavings the server's scheduler produces is not in the source; the model admits a
  request between any two steps, and none inside a step.
\<close>

definition fail_task :: "string \<Rightarrow> state \<Rightarrow> task \<times> state" where
  "fail_task job_id s = (case on_error job_id s of (r, s') \<Rightarrow> (Ended r, s'))"

fun task_step :: "env \<Rightarrow> task \<Rightarrow> state \<Rightarrow> task \<times> state" where
  "task_step w (Scheduled job_id query n folder) s =
     (case open_page w query n s of
        (Inl e, s1) \<Rightarrow> fail_task job_id s1
      | (Inr image_urls, s1) \<Rightarrow> (Looping job_id query folder (enumerate 1 image_urls), s1))"
| "task_step w (Looping job_id query folder []) s =
     (case finish_task w job_id s of
        (Some e, s') \<Rightarrow> fail_task job_id s'
      | (None, s') \<Rightarrow> (Ended None, s'))"
| "task_step w (Looping job_id query folder (item # items)) s =
     (case loop_body w job_id query folder item s of
        (Some e, s') \<Rightarrow> fail_task job_id s'
      | (None, s') \<Rightarrow> (Looping job_id query folder items, s'))"
| "task_step w (Ended r) s = (Ended r, s)"

text \<open>\<open>run_task w k t s\<close> makes \<open>k\<close> steps of one task without anything in between.\<close>

fun run_task :: "env \<Rightarrow> nat \<Rightarrow> task \<Rightarrow> state \<Rightarrow> task \<times> state" where
  "run_task w 0 t s = (t, s)"
| "run_task w (Suc k) t s = (case task_step w t s of (t', s') \<Rightarrow> run_task w k t' s')"

text \<open>
  An event is a request that is served or a step of the \<open>k\<close>-th background task, each with
  the environment it meets. Any order of events is admitted.
\<close>

datatype event =
    Create env scrape_request
  | Step env nat
  | Cancel string
  | Status string

fun apply_event :: "event \<Rightarrow> state \<Rightarrow> state" where
  "apply_event (Create w request) s = snd (start_scrape w request s)"
| "apply_event (Step w k) s =
     (if k < length (background s)
      then (case task_step w (background s ! k) s of
              (t', s') \<Rightarrow> s'\<lparr>background := (background s')[k := t']\<rparr>)
      else s)"
| "apply_event (Cancel job_id) s = snd (cancel_job job_id s)"
| "apply_event (Status job_id) s = s"

definition exec :: "event list \<Rightarrow> state \<Rightarrow> state" where
  "exec evs s = fold apply_event evs s"

text \<open>The service starts with nothing.\<close>

definition init :: state where
  "init = \<lparr>job_statuses = Map.empty, files = Map.empty, gets = 0, open_drivers = 0, background = []\<rparr>"

text \<open>The job identifiers drawn by the \<^verbatim>\<open>start_scrape\<close> calls of a sequence of events.\<close>

fun created_ids :: "event list \<Rightarrow> string list" where
  "created_ids [] = []"
| "created_ids (Create w request # evs) = uuid4 w # created_ids evs"
| "created_ids (e # evs) = created_ids evs"

subsection \<open>Predicates used in the statements\<close>

text \<open>A response that is not a success: \<^verbatim>\<open>requests.get\<close> returned, with a status other than 200.\<close>

fun non_success :: "http_outcome \<Rightarrow> bool" where
  "non_success Raises = False"
| "non_success (Response status_code content) = (status_code \<noteq> 200)"

text \<open>
  An element passes the test of line 87 when its URL (\<^verbatim>\<open>src\<close>, else \<^verbatim>\<open>data-src\<close>) is
  not empty and does not contain \<^verbatim>\<open>data:image/gif\<close>.
\<close>

definition usable_url :: "img \<Rightarrow> bool" where
  "usable_url i =
     (case py_or (src i) (data_src i) of
        None \<Rightarrow> False
      | Some image_url \<Rightarrow> image_url \<noteq> [] \<and> \<not> str_contains ''data:image/gif'' image_url)"

text \<open>Both dimensions of an element can be read as integers.\<close>

definition dims_parse :: "env \<Rightarrow> img \<Rightarrow> bool" where
  "dims_parse w i = (dimension w (width i) \<noteq> None \<and> dimension w (height i) \<noteq> None)"

text \<open>
  The extractor as the specification words it: the URL of an element (the eager attribute,
  else the lazy one) is kept when it is resolvable, is not the animated placeholder, and
  width and height are both at least 100, an unset dimension counting as 0; the kept URLs
  come in the order of the elements.
\<close>

definition at_least_100 :: "env \<Rightarrow> string option \<Rightarrow> bool" where
  "at_least_100 w a = (case dimension w a of None \<Rightarrow> False | Some d \<Rightarrow> 100 \<le> d)"

definition spec_candidate :: "env \<Rightarrow> img \<Rightarrow> string option" where
  "spec_candidate w i =
     (if usable_url i \<and> at_least_100 w (width i) \<and> at_least_100 w (height i)
      then py_or (src i) (data_src i) else None)"

definition spec_extract :: "env \<Rightarrow> img list \<Rightarrow> string list" where
  "spec_extract w images = List.map_filter (spec_candidate w) images"

subsection \<open>The invariant of the service\<close>

text \<open>The requested count of every job, as stored in its record.\<close>

definition totals :: "state \<Rightarrow> (string \<rightharpoonup> int option)" where
  "totals s = (\<lambda>job_id. map_option total_images (job_statuses s job_id))"

text \<open>
  A task fits the table when its job has a record, a task not yet started carries the
  count stored there, and the indices a task in the loop has still to write do not exceed
  a count that is not negative.
\<close>

fun task_ok :: "(string \<rightharpoonup> int option) \<Rightarrow> task \<Rightarrow> bool" where
  "task_ok T (Scheduled job_id query n folder) = (T job_id = Some n)"
| "task_ok T (Looping job_id query folder items) =
     (\<exists>m. T job_id = Some m \<and>
          (\<forall>n. m = Some n \<longrightarrow> 0 \<le> n \<longrightarrow> (\<forall>p \<in> set items. int (fst p) \<le> n)))"
| "task_ok T (Ended r) = True"

definition job_ok :: "job \<Rightarrow> bool" where
  "job_ok j =
     (\<forall>n. total_images j = Some n \<longrightarrow> 0 \<le> n \<longrightarrow> 0 \<le> images_scraped j \<and> images_scraped j \<le> n)"

definition jobs_ok :: "state \<Rightarrow> bool" where
  "jobs_ok s = (\<forall>job_id j. job_statuses s job_id = Some j \<longrightarrow> job_ok j)"

definition service_inv :: "string list \<Rightarrow> state \<Rightarrow> bool" where
  "service_inv ids s =
     (jobs_ok s \<and> (\<forall>t \<in> set (background s). task_ok (totals s) t) \<and>
      dom (job_statuses s) \<subseteq> set ids)"

subsection \<open>Sample inputs\<close>

text \<open>
  Concrete inputs at which the theorems below are evaluated. \<open>dec_int\<close> reads an unsigned
  decimal numeral, as \<^verbatim>\<open>int\<close> does, and refuses every other string; \<open>sample_b64\<close> decodes
  one payload and refuses the rest.
\<close>

definition dec_int :: "string \<Rightarrow> int option" where
  "dec_int s =
     (if s \<noteq> [] \<and> list_all (\<lambda>c. c \<in> set ''0123456789'') s
      then Some (foldl (\<lambda>a c. 10 * a + (int (of_char c) - 48)) 0 s)
      else None)"

definition sample_b64 :: "string \<Rightarrow> string option" where
  "sample_b64 s = (if s = ''QUJD'' then Some ''ABC'' else None)"

definition sample_env :: "img list \<Rightarrow> (string \<Rightarrow> nat \<Rightarrow> http_outcome) \<Rightarrow> env" where
  "sample_env images get =
     \<lparr>uuid4 = ''job-1'', timestamp = ''20240101_120000'', can_mkdir = (\<lambda>p. True),
      driver_ok = True, nav_ok = (\<lambda>u. True), scroll_height = (\<lambda>k. Some 900),
      dom_images = Some images, parse_int = dec_int, b64decode = sample_b64,
      http_get = get, can_write = (\<lambda>p. True), quit_ok = True\<rparr>"

definition sample_img :: "string \<Rightarrow> string \<Rightarrow> img" where
  "sample_img u d = \<lparr>src = Some u, data_src = None, width = Some d, height = Some d\<rparr>"

definition sample_request :: "int \<Rightarrow> scrape_request" where
  "sample_request n = \<lparr>search_term = ''cats'', num_images = Some n, folder_name = Some ''run''\<rparr>"

text \<open>Every request is answered with status 200.\<close>

definition always_ok :: "string \<Rightarrow> nat \<Rightarrow> http_outcome" where
  "always_ok u k = Response 200 ''bytes''"

text \<open>Every request is answered with status 404.\<close>

definition always_404 :: "string \<Rightarrow> nat \<Rightarrow> http_outcome" where
  "always_404 u k = Response 404 []"

text \<open>The first request is answered with status 503, every later one raises.\<close>

definition raises_second :: "string \<Rightarrow> nat \<Rightarrow> http_outcome" where
  "raises_second u k = (if k = 0 then Response 503 [] else Raises)"

text \<open>A page with one image that passes the filter, on a network that always answers 200.\<close>

definition env_one :: env where
  "env_one = sample_env [sample_img ''http://a/1.png'' ''120''] always_ok"

text \<open>A job for one image is created and its task runs to the end.\<close>

definition one_done :: state where
  "one_done = exec [Create env_one (sample_request 1), Step env_one 0, Step env_one 0, Step env_one 0] init"

subsection \<open>Tasks that have not ended\<close>

text \<open>The job a task works for, while it has not ended.\<close>

fun task_job :: "task \<Rightarrow> string option" where
  "task_job (Scheduled job_id query n folder) = Some job_id"
| "task_job (Looping job_id query folder items) = Some job_id"
| "task_job (Ended r) = None"

text \<open>The jobs of the tasks of a list that have not ended, in order.\<close>

fun live_ids :: "task list \<Rightarrow> string list" where
  "live_ids [] = []"
| "live_ids (t # ts) = (case task_job t of None \<Rightarrow> live_ids ts | Some i \<Rightarrow> i # live_ids ts)"

text \<open>A job that has a record whose status is \<^verbatim>\<open>pending\<close> or \<^verbatim>\<open>cancelled\<close>.\<close>

definition waiting :: "state \<Rightarrow> string \<Rightarrow> bool" where
  "waiting s job_id =
     (case job_statuses s job_id of
        None \<Rightarrow> False
      | Some j \<Rightarrow> status j = ''pending'' \<or> status j = ''cancelled'')"

text \<open>
  No two tasks that have not ended work for the same job, and the job of each is waiting.
\<close>

definition live_inv :: "string list \<Rightarrow> state \<Rightarrow> bool" where
  "live_inv ids s =
     (distinct (live_ids (background s)) \<and> dom (job_statuses s) \<subseteq> set ids \<and>
      (\<forall>job_id \<in> set (live_ids (background s)). waiting s job_id))"

subsection \<open>More sample inputs\<close>

text \<open>A page with two images that pass the filter.\<close>

definition two_imgs :: "img list" where
  "two_imgs = [sample_img ''http://a/1.png'' ''120'', sample_img ''http://a/2.png'' ''120'']"

text \<open>That page on a network that answers 200, 404, or 503 and then raises.\<close>

definition env_two :: env where
  "env_two = sample_env two_imgs always_ok"

definition env_404 :: env where
  "env_404 = sample_env two_imgs always_404"

definition env_raise :: env where
  "env_raise = sample_env two_imgs raises_second"

text \<open>A job for two images is created and its task has opened the page.\<close>

definition in_loop_404 :: state where
  "in_loop_404 = exec [Create env_404 (sample_request 2), Step env_404 0] init"

definition in_loop_raise :: state where
  "in_loop_raise = exec [Create env_raise (sample_request 2), Step env_raise 0] init"

text \<open>A job for two images is created, its task opens the page and stores the first image.\<close>

definition after_first :: "event list" where
  "after_first = [Create env_two (sample_request 2), Step env_two 0, Step env_two 0]"

text \<open>A page with three images that pass the filter, and a request for \<open>- 1\<close> images.\<close>

definition three_imgs :: "img list" where
  "three_imgs = [sample_img ''http://a/1.png'' ''120'', sample_img ''http://a/2.png'' ''120'',
                 sample_img ''http://a/3.png'' ''120'']"

definition env_three :: env where
  "env_three = sample_env three_imgs always_ok"

definition negative_run :: "event list" where
  "negative_run = [Create env_three (sample_request (- 1)), Step env_three 0, Step env_three 0,
                   Step env_three 0, Step env_three 0]"

subsection \<open>Sample pages and runs\<close>

text \<open>A dimension attribute that is present, not empty, and refused by \<^verbatim>\<open>int\<close>.\<close>

definition bad_dimension :: "env \<Rightarrow> string option \<Rightarrow> bool" where
  "bad_dimension w a = (case a of None \<Rightarrow> False | Some s \<Rightarrow> s \<noteq> [] \<and> parse_int w s = None)"

text \<open>
  A page with an image that passes, an animated placeholder, an image that is too small,
  one whose URL is in \<^verbatim>\<open>data-src\<close>, one without a URL, one without dimensions, and the
  first image once more.
\<close>

definition mixed_imgs :: "img list" where
  "mixed_imgs =
     [sample_img ''http://a/1.png'' ''120'',
      sample_img ''data:image/gif;base64,R0lGODlhAQABAAAAACw='' ''120'',
      sample_img ''http://a/small.png'' ''50'',
      \<lparr>src = Some [], data_src = Some ''http://a/lazy.png'', width = Some ''100'', height = Some ''300''\<rparr>,
      \<lparr>src = None, data_src = None, width = Some ''120'', height = Some ''120''\<rparr>,
      \<lparr>src = Some ''http://a/unset.png'', data_src = None, width = None, height = Some []\<rparr>,
      sample_img ''http://a/1.png'' ''120'']"

definition env_mixed :: env where
  "env_mixed = sample_env mixed_imgs always_ok"

text \<open>A page whose second image has a usable URL and the width and height \<^verbatim>\<open>abc\<close>.\<close>

definition bad_width_imgs :: "img list" where
  "bad_width_imgs = [sample_img ''http://a/1.png'' ''120'', sample_img ''http://a/2.png'' ''abc'']"

definition env_bad_width :: env where
  "env_bad_width = sample_env bad_width_imgs always_ok"

text \<open>
  A page where the width and height \<^verbatim>\<open>abc\<close> stand on an element without a URL and on an
  animated placeholder.
\<close>

definition hidden_imgs :: "img list" where
  "hidden_imgs =
     [\<lparr>src = None, data_src = None, width = Some ''abc'', height = Some ''abc''\<rparr>,
      sample_img ''data:image/gif;base64,R0lGODlhAQABAAAAACw='' ''abc'',
      sample_img ''http://a/1.png'' ''120'']"

definition env_bad_hidden :: env where
  "env_bad_hidden = sample_env hidden_imgs always_ok"

text \<open>A job for one image is created and cancelled before its task has started.\<close>

definition cancelled_first :: "event list" where
  "cancelled_first = [Create env_one (sample_request 1), Cancel ''job-1'']"

text \<open>
  A page whose first image is an inline payload that \<^verbatim>\<open>base64.b64decode\<close> refuses (three
  characters, so the padding is wrong), followed by a remote image; and the state after
  a job for two images is created and its task has run on that page.
\<close>

definition malformed_imgs :: "img list" where
  "malformed_imgs = [sample_img ''data:image/png;base64,QUJ'' ''120'', sample_img ''http://a/2.png'' ''120'']"

definition env_malformed :: env where
  "env_malformed = sample_env malformed_imgs always_ok"

definition malformed_run :: state where
  "malformed_run =
     snd (scrape_images_task env_malformed ''job-1'' ''cats'' (Some 2) ''GoogleSearchImages/run''
            (exec [Create env_malformed (sample_request 2)] init))"

section \<open>Lemmas\<close>

subsection \<open>What each function leaves alone\<close>

lemma write_file_frame:
  "write_file w p c s = (r, s') \<Longrightarrow>
   job_statuses s' = job_statuses s \<and> background s' = background s \<and> open_drivers s' = open_drivers s"
  by (auto simp: write_file_def split: if_splits)

lemma fetch_loop_frame:
  "fetch_loop w u p n s = (r, s') \<Longrightarrow>
   job_statuses s' = job_statuses s \<and> background s' = background s \<and> open_drivers s' = open_drivers s"
proof (induction n arbitrary: s)
  case 0
  then show ?case by simp
next
  case (Suc n)
  show ?case
  proof (cases "http_get w u (gets s)")
    case Raises
    with Suc.prems show ?thesis by auto
  next
    case (Response c b)
    show ?thesis
    proof (cases "c = 200")
      case True
      with Response Suc.prems have "write_file w p b (s\<lparr>gets := Suc (gets s)\<rparr>) = (r, s')" by simp
      from write_file_frame [OF this] show ?thesis by simp
    next
      case False
      with Response Suc.prems have "fetch_loop w u p n (s\<lparr>gets := Suc (gets s)\<rparr>) = (r, s')" by simp
      from Suc.IH [OF this] show ?thesis by simp
    qed
  qed
qed

lemma save_image_frame:
  "save_image w u d f n s = (r, s') \<Longrightarrow>
   job_statuses s' = job_statuses s \<and> background s' = background s \<and> open_drivers s' = open_drivers s"
  unfolding save_image_def
  by (auto split: if_splits option.splits prod.splits dest: write_file_frame fetch_loop_frame)

lemma open_page_frame:
  "open_page w query n s = (r, s') \<Longrightarrow>
   job_statuses s' = job_statuses s \<and> background s' = background s"
  by (auto simp: open_page_def split: option.splits sum.splits if_splits)

lemma set_status_frame:
  "set_status jid v s = (r, s') \<Longrightarrow> background s' = background s \<and> open_drivers s' = open_drivers s
     \<and> files s' = files s \<and> gets s' = gets s"
  by (auto simp: set_status_def split: option.splits)

lemma set_status_totals:
  "set_status job_id v s = (r, s') \<Longrightarrow> totals s' = totals s \<and> dom (job_statuses s') = dom (job_statuses s)"
proof (cases "job_statuses s job_id")
  case None
  assume "set_status job_id v s = (r, s')"
  with None show ?thesis by (simp add: set_status_def)
next
  case (Some j)
  assume "set_status job_id v s = (r, s')"
  with Some have s': "s' = s\<lparr>job_statuses := (job_statuses s)(job_id \<mapsto> j\<lparr>status := v\<rparr>)\<rparr>"
    by (simp add: set_status_def)
  from Some have "job_id \<in> dom (job_statuses s)" by blast
  then have "dom (job_statuses s') = dom (job_statuses s)"
    by (simp add: s' insert_absorb)
  moreover have "totals s' = totals s"
    using Some by (auto simp: s' totals_def fun_eq_iff)
  ultimately show ?thesis by simp
qed

lemma set_status_jobs_ok:
  "set_status job_id v s = (r, s') \<Longrightarrow> jobs_ok s \<Longrightarrow> jobs_ok s'"
  by (auto simp: set_status_def jobs_ok_def job_ok_def split: option.splits if_splits)

lemma set_images_scraped_totals:
  "set_images_scraped job_id i s = (r, s') \<Longrightarrow>
     totals s' = totals s \<and> dom (job_statuses s') = dom (job_statuses s) \<and> background s' = background s"
proof (cases "job_statuses s job_id")
  case None
  assume "set_images_scraped job_id i s = (r, s')"
  with None show ?thesis by (simp add: set_images_scraped_def)
next
  case (Some j)
  assume "set_images_scraped job_id i s = (r, s')"
  with Some have s': "s' = s\<lparr>job_statuses := (job_statuses s)(job_id \<mapsto> j\<lparr>images_scraped := i\<rparr>)\<rparr>"
    by (simp add: set_images_scraped_def)
  from Some have "job_id \<in> dom (job_statuses s)" by blast
  then have "dom (job_statuses s') = dom (job_statuses s)"
    by (simp add: s' insert_absorb)
  moreover have "totals s' = totals s"
    using Some by (auto simp: s' totals_def fun_eq_iff)
  ultimately show ?thesis by (simp add: s')
qed

lemma on_error_totals:
  "on_error job_id s = (r, s') \<Longrightarrow>
     totals s' = totals s \<and> dom (job_statuses s') = dom (job_statuses s) \<and> background s' = background s"
  unfolding on_error_def
  by (fastforce split: prod.splits option.splits dest: set_status_totals set_status_frame)

lemma on_error_jobs_ok:
  "on_error job_id s = (r, s') \<Longrightarrow> jobs_ok s \<Longrightarrow> jobs_ok s'"
  unfolding on_error_def
  by (auto split: prod.splits option.splits dest: set_status_jobs_ok)

lemma fail_task_totals:
  "fail_task job_id s = (t, s') \<Longrightarrow>
     totals s' = totals s \<and> dom (job_statuses s') = dom (job_statuses s) \<and> background s' = background s \<and> t = Ended (fst (on_error job_id s))"
  unfolding fail_task_def
  by (fastforce split: prod.splits dest: on_error_totals)

lemma fail_task_jobs_ok:
  "fail_task job_id s = (t, s') \<Longrightarrow> jobs_ok s \<Longrightarrow> jobs_ok s'"
  unfolding fail_task_def
  by (auto split: prod.splits dest: on_error_jobs_ok)

lemma finish_task_totals:
  "finish_task w job_id s = (r, s') \<Longrightarrow>
     totals s' = totals s \<and> dom (job_statuses s') = dom (job_statuses s) \<and> background s' = background s"
  unfolding finish_task_def
  by (fastforce simp: totals_def split: prod.splits option.splits if_splits
        dest: set_status_totals set_status_frame)

lemma finish_task_jobs_ok:
  "finish_task w job_id s = (r, s') \<Longrightarrow> jobs_ok s \<Longrightarrow> jobs_ok s'"
  unfolding finish_task_def
  by (auto simp: jobs_ok_def split: prod.splits option.splits if_splits dest: set_status_jobs_ok)

lemma totals_cong: "job_statuses s' = job_statuses s \<Longrightarrow> totals s' = totals s"
  by (simp add: totals_def)

lemma jobs_ok_cong: "job_statuses s' = job_statuses s \<Longrightarrow> jobs_ok s' = jobs_ok s"
  by (simp add: jobs_ok_def)

lemma loop_body_totals:
  assumes "loop_body w job_id query folder item s = (r, s')"
  shows "totals s' = totals s \<and> dom (job_statuses s') = dom (job_statuses s) \<and> background s' = background s"
proof (cases "job_id \<in> dom (job_statuses s)")
  case False
  with assms show ?thesis by (simp add: loop_body_def)
next
  case True
  obtain r1 s1 where sv: "save_image w (snd item) folder (query @ ''_'' @ show_nat (fst item)) 3 s = (r1, s1)"
    by (cases "save_image w (snd item) folder (query @ ''_'' @ show_nat (fst item)) 3 s")
  from save_image_frame [OF sv] have fr: "job_statuses s1 = job_statuses s" "background s1 = background s"
    by simp_all
  show ?thesis
  proof (cases r1)
    case (Some e)
    with assms True sv have "s' = s1" by (simp add: loop_body_def)
    with fr show ?thesis by (simp add: totals_def)
  next
    case None
    with assms True sv have "set_images_scraped job_id (int (fst item)) s1 = (r, s')"
      by (simp add: loop_body_def)
    from set_images_scraped_totals [OF this] fr show ?thesis by (simp add: totals_def)
  qed
qed

lemma open_page_totals:
  assumes "open_page w query n s = (r, s')"
  shows "totals s' = totals s \<and> dom (job_statuses s') = dom (job_statuses s) \<and> background s' = background s
      \<and> jobs_ok s' = jobs_ok s"
  using open_page_frame [OF assms] by (simp add: totals_def jobs_ok_def)

subsection \<open>The invariant is kept\<close>

lemma loop_body_jobs_ok:
  assumes lb: "loop_body w job_id query folder item s = (r, s')"
    and ok: "jobs_ok s"
    and tk: "task_ok (totals s) (Looping job_id query folder (item # items))"
  shows "jobs_ok s'"
proof (cases "job_id \<in> dom (job_statuses s)")
  case False
  with lb ok show ?thesis by (simp add: loop_body_def)
next
  case True
  obtain r1 s1 where sv: "save_image w (snd item) folder (query @ ''_'' @ show_nat (fst item)) 3 s = (r1, s1)"
    by (cases "save_image w (snd item) folder (query @ ''_'' @ show_nat (fst item)) 3 s")
  from save_image_frame [OF sv] have fr: "job_statuses s1 = job_statuses s" by simp
  show ?thesis
  proof (cases r1)
    case (Some e)
    with lb True sv have "s' = s1" by (simp add: loop_body_def)
    with fr ok show ?thesis by (simp add: jobs_ok_def)
  next
    case None
    with lb True sv have si: "set_images_scraped job_id (int (fst item)) s1 = (r, s')"
      by (simp add: loop_body_def)
    from True obtain j where j: "job_statuses s job_id = Some j" by blast
    with si fr have s': "s' = s1\<lparr>job_statuses := (job_statuses s)(job_id \<mapsto> j\<lparr>images_scraped := int (fst item)\<rparr>)\<rparr>"
      by (simp add: set_images_scraped_def)
    from tk j have bound: "\<And>n. total_images j = Some n \<Longrightarrow> 0 \<le> n \<Longrightarrow> int (fst item) \<le> n"
      by (auto simp: totals_def)
    have "job_ok (j\<lparr>images_scraped := int (fst item)\<rparr>)"
      using bound by (simp add: job_ok_def)
    with ok show ?thesis
      by (simp add: s' jobs_ok_def)
  qed
qed

lemma enumerate_slice_bound:
  assumes "(i, u) \<in> set (enumerate (Suc 0) (py_slice_to (Some n) xs))" and "0 \<le> n"
  shows "int i \<le> n"
proof -
  from assms have "i < length (take (nat n) xs) + 1"
    by (simp add: py_slice_to_def in_set_enumerate_eq)
  then have "i \<le> nat n" by simp
  with assms(2) show ?thesis by linarith
qed

lemma task_step_inv:
  assumes st: "task_step w t s = (t', s')"
    and ok: "jobs_ok s"
    and tk: "task_ok (totals s) t"
  shows "jobs_ok s' \<and> task_ok (totals s') t' \<and> totals s' = totals s
       \<and> dom (job_statuses s') = dom (job_statuses s) \<and> background s' = background s"
proof (cases t)
  case (Scheduled job_id query n folder)
  obtain r1 s1 where op: "open_page w query n s = (r1, s1)" by (cases "open_page w query n s")
  note fr = open_page_totals [OF op]
  show ?thesis
  proof (cases r1)
    case (Inl e)
    with st Scheduled op have f: "fail_task job_id s1 = (t', s')" by simp
    from fail_task_totals [OF f] fail_task_jobs_ok [OF f] fr ok show ?thesis by simp
  next
    case (Inr image_urls)
    with st Scheduled op have t': "t' = Looping job_id query folder (enumerate 1 image_urls)" and s': "s' = s1"
      by simp_all
    have urls: "\<exists>xs. image_urls = py_slice_to n xs"
      using op Inr by (auto simp: open_page_def split: if_splits option.splits sum.splits)
    from tk Scheduled have T: "totals s job_id = Some n" by simp
    have "task_ok (totals s) t'"
      using urls T by (auto simp: t' dest: enumerate_slice_bound)
    with fr ok show ?thesis by (simp add: s')
  qed
next
  case (Looping job_id query folder items)
  show ?thesis
  proof (cases items)
    case Nil
    obtain r1 s1 where fin: "finish_task w job_id s = (r1, s1)" by (cases "finish_task w job_id s")
    note fr = finish_task_totals [OF fin] finish_task_jobs_ok [OF fin ok]
    show ?thesis
    proof (cases r1)
      case None
      with st Looping Nil fin have "t' = Ended None" "s' = s1" by simp_all
      with fr show ?thesis by simp
    next
      case (Some e)
      with st Looping Nil fin have f: "fail_task job_id s1 = (t', s')" by simp
      from fail_task_totals [OF f] fail_task_jobs_ok [OF f] fr show ?thesis by simp
    qed
  next
    case (Cons item rest)
    obtain r1 s1 where lb: "loop_body w job_id query folder item s = (r1, s1)"
      by (cases "loop_body w job_id query folder item s")
    from tk Looping Cons have tk': "task_ok (totals s) (Looping job_id query folder (item # rest))" by simp
    note fr = loop_body_totals [OF lb] loop_body_jobs_ok [OF lb ok tk']
    show ?thesis
    proof (cases r1)
      case None
      with st Looping Cons lb have t': "t' = Looping job_id query folder rest" and s': "s' = s1" by simp_all
      from tk' have "task_ok (totals s) (Looping job_id query folder rest)" by auto
      with fr show ?thesis by (simp add: t' s')
    next
      case (Some e)
      with st Looping Cons lb have f: "fail_task job_id s1 = (t', s')" by simp
      from fail_task_totals [OF f] fail_task_jobs_ok [OF f] fr show ?thesis by simp
    qed
  qed
next
  case (Ended r)
  with st ok show ?thesis by auto
qed

lemma cancel_job_totals:
  assumes "cancel_job job_id s = (r, s')"
  shows "totals s' = totals s \<and> dom (job_statuses s') = dom (job_statuses s) \<and> background s' = background s
     \<and> (jobs_ok s \<longrightarrow> jobs_ok s')"
proof (cases "job_statuses s job_id")
  case None
  with assms show ?thesis by (simp add: cancel_job_def)
next
  case (Some j)
  show ?thesis
  proof (cases "status j = ''pending''")
    case False
    with Some assms show ?thesis by (simp add: cancel_job_def)
  next
    case True
    with Some assms have s': "s' = s\<lparr>job_statuses := (job_statuses s)(job_id \<mapsto> j\<lparr>status := ''cancelled''\<rparr>)\<rparr>"
      by (simp add: cancel_job_def)
    from Some have "job_id \<in> dom (job_statuses s)" by blast
    then have "dom (job_statuses s') = dom (job_statuses s)"
      by (simp add: s' insert_absorb)
    moreover have "totals s' = totals s"
      using Some by (auto simp: s' totals_def fun_eq_iff)
    moreover have "jobs_ok s \<longrightarrow> jobs_ok s'"
      using Some by (auto simp: s' jobs_ok_def job_ok_def)
    ultimately show ?thesis by (simp add: s')
  qed
qed

lemma task_ok_upd:
  "task_ok T t \<Longrightarrow> T k = None \<Longrightarrow> task_ok (T(k \<mapsto> v)) t"
  by (cases t) auto

lemma created_ids_append: "created_ids (evs @ evs') = created_ids evs @ created_ids evs'"
  by (induction evs rule: created_ids.induct) simp_all

lemma exec_snoc: "exec (evs @ [e]) s = apply_event e (exec evs s)"
  by (simp add: exec_def)

lemma start_scrape_inv:
  assumes i: "service_inv ids s" and fresh: "uuid4 w \<notin> set ids"
  shows "service_inv (ids @ [uuid4 w]) (snd (start_scrape w request s))"
proof -
  let ?path = "path_join ''GoogleSearchImages'' (chosen_folder w request)"
  show ?thesis
  proof (cases "can_mkdir w ?path")
    case False
    then have "snd (start_scrape w request s) = s" by (simp add: start_scrape_def)
    with i show ?thesis by (auto simp: service_inv_def)
  next
    case True
    let ?j = "\<lparr>status = ''pending'', images_scraped = 0,
                  total_images = num_images request, folder_path = ?path\<rparr>"
    let ?t = "Scheduled (uuid4 w) (search_term request) (num_images request) ?path"
    let ?s' = "s\<lparr>job_statuses := (job_statuses s)(uuid4 w \<mapsto> ?j), background := background s @ [?t]\<rparr>"
    from True have s': "snd (start_scrape w request s) = ?s'" by (simp add: start_scrape_def Let_def)
    from i fresh have nodom: "job_statuses s (uuid4 w) = None" by (auto simp: service_inv_def)
    have tot: "totals ?s' = (totals s)(uuid4 w \<mapsto> num_images request)"
      by (auto simp: totals_def fun_eq_iff)
    have "jobs_ok ?s'" using i by (auto simp: service_inv_def jobs_ok_def job_ok_def)
    moreover have "\<forall>t \<in> set (background ?s'). task_ok (totals ?s') t"
    proof
      fix t assume "t \<in> set (background ?s')"
      then consider "t \<in> set (background s)" | "t = ?t" by auto
      then show "task_ok (totals ?s') t"
      proof cases
        case 1
        with i have "task_ok (totals s) t" by (simp add: service_inv_def)
        moreover from nodom have "totals s (uuid4 w) = None" by (simp add: totals_def)
        ultimately show ?thesis unfolding tot by (rule task_ok_upd)
      next
        case 2
        then show ?thesis unfolding tot by simp
      qed
    qed
    moreover have "dom (job_statuses ?s') \<subseteq> set (ids @ [uuid4 w])"
      using i by (auto simp: service_inv_def)
    ultimately show ?thesis unfolding s' service_inv_def by blast
  qed
qed

lemma step_inv:
  assumes i: "service_inv ids s"
  shows "service_inv ids (apply_event (Step w k) s)"
proof (cases "k < length (background s)")
  case False
  with i show ?thesis by simp
next
  case True
  obtain t' s' where st: "task_step w (background s ! k) s = (t', s')"
    by (cases "task_step w (background s ! k) s")
  from True have mem: "background s ! k \<in> set (background s)" by simp
  with i have tk: "task_ok (totals s) (background s ! k)" and ok: "jobs_ok s"
    by (simp_all add: service_inv_def)
  note fr = task_step_inv [OF st ok tk]
  let ?s'' = "s'\<lparr>background := (background s')[k := t']\<rparr>"
  from True st have res: "apply_event (Step w k) s = ?s''" by simp
  have tot: "totals ?s'' = totals s" using fr by (simp add: totals_def)
  have "jobs_ok ?s''" using fr by (simp add: jobs_ok_def)
  moreover have "\<forall>t \<in> set (background ?s''). task_ok (totals ?s'') t"
  proof
    fix t assume "t \<in> set (background ?s'')"
    then have "t \<in> insert t' (set (background s))"
      using fr set_update_subset_insert [of "background s" k t'] by auto
    then show "task_ok (totals ?s'') t"
      unfolding tot using fr i by (auto simp: service_inv_def)
  qed
  moreover have "dom (job_statuses ?s'') \<subseteq> set ids"
    using fr i by (simp add: service_inv_def)
  ultimately show ?thesis unfolding res service_inv_def by blast
qed

lemma cancel_inv:
  assumes i: "service_inv ids s"
  shows "service_inv ids (apply_event (Cancel job_id) s)"
proof -
  obtain r s' where c: "cancel_job job_id s = (r, s')" by (cases "cancel_job job_id s")
  from cancel_job_totals [OF c] i show ?thesis
    by (simp add: c service_inv_def)
qed

lemma service_inv_init: "service_inv [] init"
  by (simp add: service_inv_def init_def jobs_ok_def)

lemma exec_inv: "distinct (created_ids evs) \<Longrightarrow> service_inv (created_ids evs) (exec evs init)"
proof (induction evs rule: rev_induct)
  case Nil
  show ?case by (simp add: exec_def service_inv_init)
next
  case (snoc e evs)
  from snoc.prems have d: "distinct (created_ids evs)" and fresh: "set (created_ids [e]) \<inter> set (created_ids evs) = {}"
    by (auto simp: created_ids_append)
  note IH = snoc.IH [OF d]
  show ?case
  proof (cases e)
    case (Create w request)
    with fresh have "uuid4 w \<notin> set (created_ids evs)" by simp
    from start_scrape_inv [OF IH this] Create show ?thesis
      by (simp add: exec_snoc created_ids_append)
  next
    case (Step w k)
    with step_inv [OF IH] show ?thesis by (simp add: exec_snoc created_ids_append)
  next
    case (Cancel job_id)
    with cancel_inv [OF IH] show ?thesis by (simp add: exec_snoc created_ids_append)
  next
    case (Status job_id)
    with IH show ?thesis by (simp add: exec_snoc created_ids_append)
  qed
qed

subsection \<open>The retry loop\<close>

lemma fetch_loop_all_fail:
  "\<forall>i<n. non_success (http_get w u (gets s + i)) \<Longrightarrow>
   fetch_loop w u p n s = (None, s\<lparr>gets := gets s + n\<rparr>)"
proof (induction n arbitrary: s)
  case 0
  show ?case by simp
next
  case (Suc n)
  from Suc.prems have first: "non_success (http_get w u (gets s))"
    by (metis add.right_neutral zero_less_Suc)
  then obtain c b where r: "http_get w u (gets s) = Response c b" and c: "c \<noteq> 200"
    by (cases "http_get w u (gets s)") auto
  have "\<forall>i<n. non_success (http_get w u (gets (s\<lparr>gets := Suc (gets s)\<rparr>) + i))"
  proof (intro allI impI)
    fix i assume "i < n"
    then have "Suc i < Suc n" by simp
    with Suc.prems have "non_success (http_get w u (gets s + Suc i))" by blast
    then show "non_success (http_get w u (gets (s\<lparr>gets := Suc (gets s)\<rparr>) + i))" by simp
  qed
  from Suc.IH [OF this] r c show ?case by simp
qed

lemma fetch_loop_raises:
  "k < n \<Longrightarrow> \<forall>i<k. non_success (http_get w u (gets s + i)) \<Longrightarrow>
   http_get w u (gets s + k) = Raises \<Longrightarrow>
   fetch_loop w u p n s = (Some RequestException, s\<lparr>gets := Suc (gets s + k)\<rparr>)"
proof (induction k arbitrary: n s)
  case 0
  then obtain m where "n = Suc m" by (cases n) auto
  with 0 show ?case by simp
next
  case (Suc k)
  then obtain m where n: "n = Suc m" and km: "k < m" by (cases n) auto
  from Suc.prems have first: "non_success (http_get w u (gets s))"
    by (metis add.right_neutral zero_less_Suc)
  then obtain c b where r: "http_get w u (gets s) = Response c b" and c: "c \<noteq> 200"
    by (cases "http_get w u (gets s)") auto
  let ?s1 = "s\<lparr>gets := Suc (gets s)\<rparr>"
  have a: "\<forall>i<k. non_success (http_get w u (gets ?s1 + i))"
  proof (intro allI impI)
    fix i assume "i < k"
    then have "Suc i < Suc k" by simp
    with Suc.prems(2) have "non_success (http_get w u (gets s + Suc i))" by blast
    then show "non_success (http_get w u (gets ?s1 + i))" by simp
  qed
  have b: "http_get w u (gets ?s1 + k) = Raises" using Suc.prems(3) by simp
  from Suc.IH [OF km a b] r c n show ?case by simp
qed

subsection \<open>Remote URLs\<close>

lemma save_image_remote:
  "\<not> prefix ''data:image/'' url \<Longrightarrow>
   save_image w url folder file_name n s =
     (case fetch_loop w url (path_join folder (file_name @ ''.jpg'')) n s of
        (None, s') \<Rightarrow> (None, s')
      | (Some e, s') \<Rightarrow> (Some (HTTPException 500 ''Failed to save image''), s'))"
  by (simp add: save_image_def)

subsection \<open>A step works on its own job\<close>

lemma live_ids_append: "live_ids (xs @ ys) = live_ids xs @ live_ids ys"
  by (induction xs) (auto split: option.splits)

lemma live_ids_single: "live_ids [t] = (case task_job t of None \<Rightarrow> [] | Some i \<Rightarrow> [i])"
  by (simp split: option.splits)

lemma live_ids_update:
  assumes "k < length ts"
  shows "live_ids ts = live_ids (take k ts) @ live_ids [ts ! k] @ live_ids (drop (Suc k) ts)"
    and "live_ids (ts[k := t]) = live_ids (take k ts) @ live_ids [t] @ live_ids (drop (Suc k) ts)"
proof -
  from assms have "ts = take k ts @ [ts ! k] @ drop (Suc k) ts"
    by (simp add: id_take_nth_drop)
  then have "live_ids ts = live_ids (take k ts @ [ts ! k] @ drop (Suc k) ts)" by simp
  then show "live_ids ts = live_ids (take k ts) @ live_ids [ts ! k] @ live_ids (drop (Suc k) ts)"
    by (simp only: live_ids_append)
  from assms have "ts[k := t] = take k ts @ [t] @ drop (Suc k) ts"
    by (simp add: upd_conv_take_nth_drop)
  then show "live_ids (ts[k := t]) = live_ids (take k ts) @ live_ids [t] @ live_ids (drop (Suc k) ts)"
    by (simp only: live_ids_append)
qed

text \<open>A step touches the record of the task's own job only, and its status only when the task ends.\<close>

lemma set_status_other:
  "set_status job_id v s = (r, s') \<Longrightarrow> other \<noteq> job_id \<Longrightarrow> job_statuses s' other = job_statuses s other"
  by (auto simp: set_status_def split: option.splits)

lemma on_error_other:
  "on_error job_id s = (r, s') \<Longrightarrow> other \<noteq> job_id \<Longrightarrow> job_statuses s' other = job_statuses s other"
  unfolding on_error_def
  by (auto split: prod.splits option.splits dest: set_status_other)

lemma fail_task_other:
  "fail_task job_id s = (t, s') \<Longrightarrow>
     task_job t = None \<and> (\<forall>other. other \<noteq> job_id \<longrightarrow> job_statuses s' other = job_statuses s other)"
  unfolding fail_task_def
  by (auto split: prod.splits dest: on_error_other)

lemma finish_task_other:
  "finish_task w job_id s = (r, s') \<Longrightarrow> other \<noteq> job_id \<Longrightarrow> job_statuses s' other = job_statuses s other"
  unfolding finish_task_def
  by (auto split: prod.splits option.splits if_splits dest: set_status_other)

lemma loop_body_status:
  assumes "loop_body w job_id query folder item s = (r, s')"
  shows "map_option status (job_statuses s' other) = map_option status (job_statuses s other)
       \<and> (other \<noteq> job_id \<longrightarrow> job_statuses s' other = job_statuses s other)"
proof (cases "job_id \<in> dom (job_statuses s)")
  case False
  with assms show ?thesis by (simp add: loop_body_def)
next
  case True
  obtain r1 s1 where sv: "save_image w (snd item) folder (query @ ''_'' @ show_nat (fst item)) 3 s = (r1, s1)"
    by (cases "save_image w (snd item) folder (query @ ''_'' @ show_nat (fst item)) 3 s")
  from save_image_frame [OF sv] have fr: "job_statuses s1 = job_statuses s" by simp
  show ?thesis
  proof (cases r1)
    case (Some e)
    with assms True sv have "s' = s1" by (simp add: loop_body_def)
    with fr show ?thesis by simp
  next
    case None
    with assms True sv have "set_images_scraped job_id (int (fst item)) s1 = (r, s')"
      by (simp add: loop_body_def)
    with fr show ?thesis
      by (auto simp: set_images_scraped_def split: option.splits)
  qed
qed

lemma task_step_own:
  assumes st: "task_step w t s = (t', s')"
  shows "(task_job t' = task_job t \<or> task_job t' = None)
     \<and> (\<forall>other. task_job t \<noteq> Some other \<longrightarrow> job_statuses s' other = job_statuses s other)
     \<and> (task_job t' \<noteq> None \<longrightarrow>
          (\<forall>other. map_option status (job_statuses s' other) = map_option status (job_statuses s other)))"
proof (cases t)
  case (Scheduled job_id query n folder)
  obtain r1 s1 where op: "open_page w query n s = (r1, s1)" by (cases "open_page w query n s")
  from open_page_frame [OF op] have fr: "job_statuses s1 = job_statuses s" by simp
  show ?thesis
  proof (cases r1)
    case (Inl e)
    with st Scheduled op have f: "fail_task job_id s1 = (t', s')" by simp
    from fail_task_other [OF f] fr Scheduled show ?thesis by simp
  next
    case (Inr image_urls)
    with st Scheduled op fr show ?thesis by auto
  qed
next
  case (Looping job_id query folder items)
  show ?thesis
  proof (cases items)
    case Nil
    obtain r1 s1 where fin: "finish_task w job_id s = (r1, s1)" by (cases "finish_task w job_id s")
    show ?thesis
    proof (cases r1)
      case None
      with st Looping Nil fin have "t' = Ended None" "s' = s1" by simp_all
      with finish_task_other [OF fin] Looping show ?thesis by simp
    next
      case (Some e)
      with st Looping Nil fin have f: "fail_task job_id s1 = (t', s')" by simp
      from fail_task_other [OF f] finish_task_other [OF fin] Looping show ?thesis by simp
    qed
  next
    case (Cons item rest)
    obtain r1 s1 where lb: "loop_body w job_id query folder item s = (r1, s1)"
      by (cases "loop_body w job_id query folder item s")
    show ?thesis
    proof (cases r1)
      case None
      with st Looping Cons lb have "t' = Looping job_id query folder rest" "s' = s1" by simp_all
      with loop_body_status [OF lb] Looping show ?thesis by simp
    next
      case (Some e)
      with st Looping Cons lb have f: "fail_task job_id s1 = (t', s')" by simp
      from fail_task_other [OF f] loop_body_status [OF lb] Looping show ?thesis by simp
    qed
  qed
next
  case (Ended r)
  with st show ?thesis by auto
qed

lemma task_step_frame:
  assumes st: "task_step w t s = (t', s')"
  shows "dom (job_statuses s') = dom (job_statuses s) \<and> background s' = background s"
proof (cases t)
  case (Scheduled job_id query n folder)
  obtain r1 s1 where op: "open_page w query n s = (r1, s1)" by (cases "open_page w query n s")
  note fr = open_page_totals [OF op]
  show ?thesis
  proof (cases r1)
    case (Inl e)
    with st Scheduled op have f: "fail_task job_id s1 = (t', s')" by simp
    from fail_task_totals [OF f] fr show ?thesis by simp
  next
    case (Inr image_urls)
    with st Scheduled op fr show ?thesis by auto
  qed
next
  case (Looping job_id query folder items)
  show ?thesis
  proof (cases items)
    case Nil
    obtain r1 s1 where fin: "finish_task w job_id s = (r1, s1)" by (cases "finish_task w job_id s")
    note fr = finish_task_totals [OF fin]
    show ?thesis
    proof (cases r1)
      case None
      with st Looping Nil fin have "s' = s1" by simp
      with fr show ?thesis by simp
    next
      case (Some e)
      with st Looping Nil fin have f: "fail_task job_id s1 = (t', s')" by simp
      from fail_task_totals [OF f] fr show ?thesis by simp
    qed
  next
    case (Cons item rest)
    obtain r1 s1 where lb: "loop_body w job_id query folder item s = (r1, s1)"
      by (cases "loop_body w job_id query folder item s")
    note fr = loop_body_totals [OF lb]
    show ?thesis
    proof (cases r1)
      case None
      with st Looping Cons lb have "s' = s1" by simp
      with fr show ?thesis by simp
    next
      case (Some e)
      with st Looping Cons lb have f: "fail_task job_id s1 = (t', s')" by simp
      from fail_task_totals [OF f] fr show ?thesis by simp
    qed
  qed
next
  case (Ended r)
  with st show ?thesis by auto
qed

lemma waiting_cong:
  "map_option status (job_statuses s' job_id) = map_option status (job_statuses s job_id) \<Longrightarrow>
   waiting s' job_id = waiting s job_id"
  by (auto simp: waiting_def split: option.splits)

lemma live_step:
  assumes i: "live_inv ids s"
  shows "live_inv ids (apply_event (Step w k) s)"
proof (cases "k < length (background s)")
  case False
  with i show ?thesis by simp
next
  case True
  let ?t = "background s ! k"
  obtain t' s' where st: "task_step w ?t s = (t', s')" by (cases "task_step w ?t s")
  from i have dist: "distinct (live_ids (background s))"
    and dom: "dom (job_statuses s) \<subseteq> set ids"
    and wait: "\<And>job_id. job_id \<in> set (live_ids (background s)) \<Longrightarrow> waiting s job_id"
    by (simp_all add: live_inv_def)
  note own = task_step_own [OF st]
  from task_step_frame [OF st]
  have fr: "dom (job_statuses s') = dom (job_statuses s)" "background s' = background s"
    by simp_all
  let ?s'' = "s'\<lparr>background := (background s')[k := t']\<rparr>"
  from True st have res: "apply_event (Step w k) s = ?s''" by simp
  let ?A = "live_ids (take k (background s))"
  let ?B = "live_ids (drop (Suc k) (background s))"
  note old = live_ids_update(1) [OF True]
  have new: "live_ids (background ?s'') = ?A @ live_ids [t'] @ ?B"
    using live_ids_update(2) [OF True, of t'] fr by simp
  show ?thesis
  proof (cases "task_job t'")
    case (Some job_id)
    with own have same: "task_job t' = task_job ?t"
      and stat: "\<And>other. map_option status (job_statuses s' other) = map_option status (job_statuses s other)"
      by auto
    from same have "live_ids [t'] = live_ids [?t]" by (simp add: live_ids_single)
    with new old have eq: "live_ids (background ?s'') = live_ids (background s)" by simp
    have "\<forall>job_id \<in> set (live_ids (background ?s'')). waiting ?s'' job_id"
    proof
      fix j assume "j \<in> set (live_ids (background ?s''))"
      with eq wait have "waiting s j" by simp
      moreover have "waiting ?s'' j = waiting s j"
        by (rule waiting_cong) (simp add: stat)
      ultimately show "waiting ?s'' j" by simp
    qed
    with eq dist dom fr show ?thesis unfolding res live_inv_def by simp
  next
    case None
    then have new': "live_ids (background ?s'') = ?A @ ?B" using new by (simp add: live_ids_single)
    from dist old have dAB: "distinct (?A @ ?B)" "\<forall>x \<in> set (live_ids [?t]). x \<notin> set (?A @ ?B)"
      by auto
    have "\<forall>job_id \<in> set (live_ids (background ?s'')). waiting ?s'' job_id"
    proof
      fix j assume j: "j \<in> set (live_ids (background ?s''))"
      with new' have jAB: "j \<in> set (?A @ ?B)" by simp
      with old have "j \<in> set (live_ids (background s))" by auto
      with wait have w: "waiting s j" by simp
      from jAB dAB(2) have "j \<notin> set (live_ids [?t])" by blast
      then have "task_job ?t \<noteq> Some j" by (auto simp: live_ids_single split: option.splits)
      with own have "job_statuses s' j = job_statuses s j" by blast
      then have "waiting ?s'' j = waiting s j" by (simp add: waiting_def)
      with w show "waiting ?s'' j" by simp
    qed
    with new' dAB(1) dom fr show ?thesis unfolding res live_inv_def by simp
  qed
qed

lemma live_create:
  assumes i: "live_inv ids s" and fresh: "uuid4 w \<notin> set ids"
  shows "live_inv (ids @ [uuid4 w]) (apply_event (Create w request) s)"
proof -
  let ?path = "path_join ''GoogleSearchImages'' (chosen_folder w request)"
  from i have dist: "distinct (live_ids (background s))"
    and dom: "dom (job_statuses s) \<subseteq> set ids"
    and wait: "\<And>job_id. job_id \<in> set (live_ids (background s)) \<Longrightarrow> waiting s job_id"
    by (simp_all add: live_inv_def)
  show ?thesis
  proof (cases "can_mkdir w ?path")
    case False
    then have "apply_event (Create w request) s = s" by (simp add: start_scrape_def)
    with i show ?thesis by (auto simp: live_inv_def)
  next
    case True
    let ?j = "\<lparr>status = ''pending'', images_scraped = 0,
                  total_images = num_images request, folder_path = ?path\<rparr>"
    let ?t = "Scheduled (uuid4 w) (search_term request) (num_images request) ?path"
    let ?s' = "s\<lparr>job_statuses := (job_statuses s)(uuid4 w \<mapsto> ?j), background := background s @ [?t]\<rparr>"
    from True have s': "apply_event (Create w request) s = ?s'" by (simp add: start_scrape_def Let_def)
    have notlive: "uuid4 w \<notin> set (live_ids (background s))"
    proof
      assume "uuid4 w \<in> set (live_ids (background s))"
      then have "waiting s (uuid4 w)" by (rule wait)
      then have "uuid4 w \<in> dom (job_statuses s)" by (auto simp: waiting_def split: option.splits)
      with dom fresh show False by blast
    qed
    have ids: "live_ids (background ?s') = live_ids (background s) @ [uuid4 w]"
      by (simp add: live_ids_append)
    have "\<forall>job_id \<in> set (live_ids (background ?s')). waiting ?s' job_id"
    proof
      fix j assume "j \<in> set (live_ids (background ?s'))"
      with ids consider "j \<in> set (live_ids (background s))" | "j = uuid4 w" by auto
      then show "waiting ?s' j"
      proof cases
        case 1
        with notlive have "j \<noteq> uuid4 w" by blast
        with wait [OF 1] show ?thesis by (simp add: waiting_def)
      next
        case 2
        then show ?thesis by (simp add: waiting_def)
      qed
    qed
    moreover have "distinct (live_ids (background ?s'))" using dist notlive ids by simp
    moreover have "dom (job_statuses ?s') \<subseteq> set (ids @ [uuid4 w])" using dom by auto
    ultimately show ?thesis unfolding s' live_inv_def by blast
  qed
qed

lemma live_cancel:
  assumes i: "live_inv ids s"
  shows "live_inv ids (apply_event (Cancel job_id) s)"
proof -
  obtain r s' where c: "cancel_job job_id s = (r, s')" by (cases "cancel_job job_id s")
  have w: "\<And>j. waiting s j \<Longrightarrow> waiting s' j"
    using c by (auto simp: cancel_job_def waiting_def split: option.splits if_splits)
  from cancel_job_totals [OF c] i w show ?thesis
    by (simp add: c live_inv_def)
qed

lemma exec_live_inv: "distinct (created_ids evs) \<Longrightarrow> live_inv (created_ids evs) (exec evs init)"
proof (induction evs rule: rev_induct)
  case Nil
  show ?case by (simp add: exec_def live_inv_def init_def)
next
  case (snoc e evs)
  from snoc.prems have d: "distinct (created_ids evs)"
    and fresh: "set (created_ids [e]) \<inter> set (created_ids evs) = {}"
    by (auto simp: created_ids_append)
  note IH = snoc.IH [OF d]
  show ?case
  proof (cases e)
    case (Create w request)
    with fresh have "uuid4 w \<notin> set (created_ids evs)" by simp
    from live_create [OF IH this] Create show ?thesis
      by (simp add: exec_snoc created_ids_append)
  next
    case (Step w k)
    with live_step [OF IH] show ?thesis by (simp add: exec_snoc created_ids_append)
  next
    case (Cancel job_id)
    with live_cancel [OF IH] show ?thesis by (simp add: exec_snoc created_ids_append)
  next
    case (Status job_id)
    with IH show ?thesis by (simp add: exec_snoc created_ids_append)
  qed
qed

lemma live_ids_mem: "t \<in> set ts \<Longrightarrow> task_job t = Some job_id \<Longrightarrow> job_id \<in> set (live_ids ts)"
  by (induction ts) (auto split: option.splits)

subsection \<open>The extractor\<close>

lemma bad_dimension_iff: "bad_dimension w a \<longleftrightarrow> dimension w a = None"
  by (auto simp: bad_dimension_def dimension_def split: option.splits)

lemma spec_extract_Cons:
  "spec_extract w (i # images) =
     (case spec_candidate w i of None \<Rightarrow> spec_extract w images | Some u \<Rightarrow> u # spec_extract w images)"
  by (simp add: spec_extract_def map_filter_simps split: option.splits)

lemma spec_extract_Nil: "spec_extract w [] = []"
  by (simp add: spec_extract_def map_filter_simps)

lemma scrape_loop_spec:
  "\<forall>i \<in> set images. usable_url i \<longrightarrow> dims_parse w i \<Longrightarrow>
   scrape_loop w images acc = Inr (acc @ spec_extract w images)"
proof (induction images arbitrary: acc)
  case Nil
  show ?case by (simp add: spec_extract_Nil)
next
  case (Cons i images)
  then have IH: "\<And>acc. scrape_loop w images acc = Inr (acc @ spec_extract w images)" by simp
  show ?case
  proof (cases "usable_url i")
    case False
    then have "spec_candidate w i = None" by (simp add: spec_candidate_def)
    with False IH show ?thesis
      by (auto simp: usable_url_def spec_extract_Cons split: option.splits)
  next
    case True
    with Cons.prems have "dims_parse w i" by simp
    then obtain wd ht where d: "dimension w (width i) = Some wd" "dimension w (height i) = Some ht"
      by (auto simp: dims_parse_def)
    from True obtain u where u: "py_or (src i) (data_src i) = Some u" "u \<noteq> []"
        "\<not> str_contains ''data:image/gif'' u"
      by (auto simp: usable_url_def split: option.splits)
    show ?thesis
      using True d u IH
      by (simp add: spec_extract_Cons spec_candidate_def at_least_100_def)
  qed
qed

lemma scrape_loop_raises:
  "i \<in> set images \<Longrightarrow> usable_url i \<Longrightarrow> \<not> dims_parse w i \<Longrightarrow>
   scrape_loop w images acc = Inl ValueError"
proof (induction images arbitrary: acc)
  case Nil
  then show ?case by simp
next
  case (Cons x images)
  show ?case
  proof (cases "x = i")
    case True
    from Cons.prems(2) obtain u where u: "py_or (src i) (data_src i) = Some u" "u \<noteq> []"
        "\<not> str_contains ''data:image/gif'' u"
      by (auto simp: usable_url_def split: option.splits)
    from Cons.prems(3) have "dimension w (width i) = None \<or> dimension w (height i) = None"
      by (simp add: dims_parse_def)
    with True u show ?thesis by (auto split: option.splits)
  next
    case False
    with Cons.prems have "i \<in> set images" by simp
    from Cons.IH [OF this Cons.prems(2,3)]
    have "\<And>acc. scrape_loop w images acc = Inl ValueError" .
    then show ?thesis by (simp split: option.splits)
  qed
qed

lemma open_page_raises:
  "scrape_all_images w = Inl e \<Longrightarrow> \<exists>e' s'. open_page w query n s = (Inl e', s')"
  by (auto simp: open_page_def split: option.splits)

subsection \<open>The task in steps is the task\<close>

lemma run_task_Ended: "run_task w k (Ended r) s = (Ended r, s)"
  by (induction k) simp_all

lemma fail_task_eq: "fail_task job_id s = (Ended (fst (on_error job_id s)), snd (on_error job_id s))"
  by (simp add: fail_task_def split: prod.splits)

lemma run_task_loop:
  "run_task w (Suc (length items)) (Looping job_id query folder items) s =
     (case task_loop w job_id query folder items s of
        (Some e, s2) \<Rightarrow> fail_task job_id s2
      | (None, s2) \<Rightarrow>
          (case finish_task w job_id s2 of
             (Some e, s3) \<Rightarrow> fail_task job_id s3
           | (None, s3) \<Rightarrow> (Ended None, s3)))"
proof (induction items arbitrary: s)
  case Nil
  show ?case
    by (auto simp: fail_task_eq split: prod.splits option.splits)
next
  case (Cons item items)
  obtain r1 s1 where lb: "loop_body w job_id query folder item s = (r1, s1)"
    by (cases "loop_body w job_id query folder item s")
  show ?case
  proof (cases r1)
    case None
    with lb Cons.IH [of s1] show ?thesis by simp
  next
    case (Some e)
    with lb show ?thesis by (simp add: fail_task_eq run_task_Ended)
  qed
qed

lemma run_task_scrape_images_task:
  "\<exists>k. run_task w k (Scheduled job_id query n folder) s =
        (Ended (fst (scrape_images_task w job_id query n folder s)),
         snd (scrape_images_task w job_id query n folder s))"
proof -
  obtain r1 s1 where op: "open_page w query n s = (r1, s1)" by (cases "open_page w query n s")
  show ?thesis
  proof (cases r1)
    case (Inl e)
    with op have "run_task w (Suc 0) (Scheduled job_id query n folder) s =
        (Ended (fst (scrape_images_task w job_id query n folder s)),
         snd (scrape_images_task w job_id query n folder s))"
      by (simp add: scrape_images_task_def fail_task_eq)
    then show ?thesis ..
  next
    case (Inr image_urls)
    define items where "items = enumerate 1 image_urls"
    from op Inr have step1: "task_step w (Scheduled job_id query n folder) s =
        (Looping job_id query folder items, s1)"
      by (simp add: items_def)
    have "run_task w (Suc (Suc (length items))) (Scheduled job_id query n folder) s =
        run_task w (Suc (length items)) (Looping job_id query folder items) s1"
      by (subst run_task.simps(2)) (simp only: step1 prod.case)
    also have "\<dots> = (Ended (fst (scrape_images_task w job_id query n folder s)),
         snd (scrape_images_task w job_id query n folder s))"
      unfolding run_task_loop using op Inr
      by (auto simp: scrape_images_task_def fail_task_eq items_def split: prod.splits option.splits)
    finally show ?thesis ..
  qed
qed

subsection \<open>Cancelling, failing, and the browser\<close>

lemma cancel_job_pending:
  "job_statuses s job_id = Some j \<Longrightarrow> status j = ''pending'' \<Longrightarrow>
   cancel_job job_id s =
     (Inr ''Job cancelled successfully'',
      s\<lparr>job_statuses := (job_statuses s)(job_id \<mapsto> j\<lparr>status := ''cancelled''\<rparr>)\<rparr>)"
  by (simp add: cancel_job_def)

lemma on_error_failed:
  "job_statuses s job_id = Some j \<Longrightarrow>
   on_error job_id s =
     (Some (HTTPException 500 ''Scraping task failed''),
      s\<lparr>job_statuses := (job_statuses s)(job_id \<mapsto> j\<lparr>status := ''failed''\<rparr>)\<rparr>)"
  by (simp add: on_error_def set_status_def)

lemma malformed_inline_fails_job:
  assumes inline: "prefix ''data:image/'' url"
    and bad: "(case split_comma url of None \<Rightarrow> True | Some (header, encoded) \<Rightarrow> b64decode w encoded = None)"
    and job: "job_statuses s job_id = Some j"
  shows "task_step w (Looping job_id query folder ((index, url) # items)) s =
         (Ended (Some (HTTPException 500 ''Scraping task failed'')),
          s\<lparr>job_statuses := (job_statuses s)(job_id \<mapsto> j\<lparr>status := ''failed''\<rparr>)\<rparr>)"
proof -
  have sv: "\<And>f. save_image w url folder f 3 s = (Some (HTTPException 500 ''Failed to save image''), s)"
    using inline bad by (auto simp: save_image_def split: option.splits)
  from job have "job_id \<in> dom (job_statuses s)" by blast
  then have "loop_body w job_id query folder (index, url) s =
      (Some (HTTPException 500 ''Failed to save image''), s)"
    by (simp add: loop_body_def sv)
  with on_error_failed [OF job] show ?thesis
    by (simp add: fail_task_def)
qed

lemma set_status_drivers:
  "set_status job_id v s = (r, s') \<Longrightarrow> open_drivers s' = open_drivers s"
  by (auto simp: set_status_def split: option.splits)

lemma on_error_drivers:
  "on_error job_id s = (r, s') \<Longrightarrow> open_drivers s' = open_drivers s \<and> r \<noteq> None"
  unfolding on_error_def
  by (auto split: prod.splits option.splits dest: set_status_drivers)

lemma loop_body_drivers:
  assumes "loop_body w job_id query folder item s = (r, s')"
  shows "open_drivers s' = open_drivers s"
proof (cases "job_id \<in> dom (job_statuses s)")
  case False
  with assms show ?thesis by (simp add: loop_body_def)
next
  case True
  obtain r1 s1 where sv: "save_image w (snd item) folder (query @ ''_'' @ show_nat (fst item)) 3 s = (r1, s1)"
    by (cases "save_image w (snd item) folder (query @ ''_'' @ show_nat (fst item)) 3 s")
  from save_image_frame [OF sv] have fr: "open_drivers s1 = open_drivers s" by simp
  show ?thesis
  proof (cases r1)
    case (Some e)
    with assms True sv have "s' = s1" by (simp add: loop_body_def)
    with fr show ?thesis by simp
  next
    case None
    with assms True sv have "set_images_scraped job_id (int (fst item)) s1 = (r, s')"
      by (simp add: loop_body_def)
    with fr show ?thesis
      by (auto simp: set_images_scraped_def split: option.splits)
  qed
qed

text \<open>A task that ends from its loop quits the browser exactly when it ends without an exception.\<close>

lemma browser_quit_only_on_success:
  assumes st: "task_step w (Looping job_id query folder items) s = (Ended r, s')"
  shows "open_drivers s' = (if r = None then open_drivers s - 1 else open_drivers s)"
proof (cases items)
  case Nil
  obtain r1 s1 where fin: "finish_task w job_id s = (r1, s1)" by (cases "finish_task w job_id s")
  show ?thesis
  proof (cases r1)
    case None
    with st Nil fin have "r = None" "s' = s1" by simp_all
    moreover from fin None have "open_drivers s1 = open_drivers s - 1"
      by (auto simp: finish_task_def split: prod.splits option.splits if_splits
            dest: set_status_drivers)
    ultimately show ?thesis by simp
  next
    case (Some e)
    with fin have d: "open_drivers s1 = open_drivers s"
      by (auto simp: finish_task_def split: prod.splits option.splits if_splits
            dest: set_status_drivers)
    from st Nil fin Some have "on_error job_id s1 = (r, s')"
      by (auto simp: fail_task_def split: prod.splits)
    from on_error_drivers [OF this] d show ?thesis by auto
  qed
next
  case (Cons item rest)
  obtain r1 s1 where lb: "loop_body w job_id query folder item s = (r1, s1)"
    by (cases "loop_body w job_id query folder item s")
  show ?thesis
  proof (cases r1)
    case None
    with st Cons lb show ?thesis by simp
  next
    case (Some e)
    with st Cons lb have "on_error job_id s1 = (r, s')"
      by (auto simp: fail_task_def split: prod.splits)
    from on_error_drivers [OF this] loop_body_drivers [OF lb] show ?thesis by auto
  qed
qed

subsection \<open>Completed and failed records stay as they are\<close>

text \<open>
  Once a record says \<^verbatim>\<open>completed\<close> or \<^verbatim>\<open>failed\<close>, no later request or task step
  changes it, as long as job identifiers do not repeat.
\<close>

lemma apply_event_keeps_finished:
  assumes i: "live_inv ids s"
    and job: "job_statuses s job_id = Some j"
    and fin: "status j = ''completed'' \<or> status j = ''failed''"
    and fresh: "set (created_ids [e]) \<inter> set ids = {}"
  shows "job_statuses (apply_event e s) job_id = Some j"
proof (cases e)
  case (Create w request)
  from i job have "job_id \<in> set ids" by (auto simp: live_inv_def)
  with fresh Create have "uuid4 w \<noteq> job_id" by auto
  with job Create show ?thesis
    by (simp add: start_scrape_def Let_def)
next
  case (Step w k)
  show ?thesis
  proof (cases "k < length (background s)")
    case False
    with Step job show ?thesis by simp
  next
    case True
    let ?t = "background s ! k"
    obtain t' s' where st: "task_step w ?t s = (t', s')" by (cases "task_step w ?t s")
    have "task_job ?t \<noteq> Some job_id"
    proof
      assume "task_job ?t = Some job_id"
      with True have "job_id \<in> set (live_ids (background s))"
        by (intro live_ids_mem [of ?t]) simp_all
      with i have "waiting s job_id" by (simp add: live_inv_def)
      with job fin show False by (auto simp: waiting_def)
    qed
    with task_step_own [OF st] have "job_statuses s' job_id = job_statuses s job_id" by blast
    with True st Step job show ?thesis by simp
  qed
next
  case (Cancel other)
  with job fin show ?thesis
    by (auto simp: cancel_job_def split: option.splits)
next
  case (Status other)
  with job show ?thesis by simp
qed

lemma exec_append: "exec (evs @ evs') s = exec evs' (exec evs s)"
  by (simp add: exec_def)

lemma finished_record_is_final:
  assumes d: "distinct (created_ids (evs @ evs'))"
    and job: "job_statuses (exec evs init) job_id = Some j"
    and fin: "status j = ''completed'' \<or> status j = ''failed''"
  shows "job_statuses (exec (evs @ evs') init) job_id = Some j"
  using d
proof (induction evs' rule: rev_induct)
  case Nil
  with job show ?case by simp
next
  case (snoc e evs')
  from snoc.prems have d': "distinct (created_ids (evs @ evs'))"
    and fresh: "set (created_ids [e]) \<inter> set (created_ids (evs @ evs')) = {}"
    by (auto simp: created_ids_append)
  from snoc.IH [OF d'] have rec: "job_statuses (exec (evs @ evs') init) job_id = Some j" .
  from apply_event_keeps_finished [OF exec_live_inv [OF d'] rec fin fresh]
  have "job_statuses (apply_event e (exec (evs @ evs') init)) job_id = Some j" .
  moreover have "exec (evs @ evs' @ [e]) init = apply_event e (exec (evs @ evs') init)"
    using exec_snoc [of "evs @ evs'" e init] by simp
  ultimately show ?case by simp
qed

section \<open>The claims\<close>

subsection \<open>C8: cancelling what is not pending, and unknown identifiers\<close>

text \<open>
  C8. For a job whose status is not \<^verbatim>\<open>pending\<close>, \<^verbatim>\<open>cancel_job\<close> raises the HTTP error 400
  and leaves the whole state, hence the record, as it was. For an identifier that is not
  in \<^verbatim>\<open>job_statuses\<close>, both \<^verbatim>\<open>cancel_job\<close> and \<^verbatim>\<open>get_job_status\<close> raise the HTTP error 404,
  and \<^verbatim>\<open>cancel_job\<close> changes nothing.
\<close>

theorem cancel_and_status_errors:
  "(\<forall>j. job_statuses s job_id = Some j \<longrightarrow> status j \<noteq> ''pending'' \<longrightarrow>
        cancel_job job_id s =
          (Inl (HTTPException 400 ''Job cannot be cancelled in its current state''), s))
   \<and> (job_statuses s job_id = None \<longrightarrow>
        cancel_job job_id s = (Inl (HTTPException 404 ''Job not found''), s)
        \<and> get_job_status job_id s = Inl (HTTPException 404 ''Job not found''))"
  by (simp add: cancel_job_def get_job_status_def)

text \<open>
  At the state \<open>one_done\<close> the job \<^verbatim>\<open>job-1\<close> is completed and \<^verbatim>\<open>job-2\<close> is unknown.
\<close>

theorem cancel_and_status_errors_witness:
  "cancel_job ''job-1'' one_done =
     (Inl (HTTPException 400 ''Job cannot be cancelled in its current state''), one_done)
   \<and> cancel_job ''job-2'' one_done = (Inl (HTTPException 404 ''Job not found''), one_done)
   \<and> get_job_status ''job-2'' one_done = Inl (HTTPException 404 ''Job not found'')"
proof -
  have a: "job_statuses one_done ''job-1'' =
     Some \<lparr>status = ''completed'', images_scraped = 1, total_images = Some 1,
           folder_path = ''GoogleSearchImages/run''\<rparr>"
    by code_simp
  have b: "job_statuses one_done ''job-2'' = None"
    by code_simp
  from a b cancel_and_status_errors [of one_done "''job-1''"]
    cancel_and_status_errors [of one_done "''job-2''"]
  show ?thesis by simp
qed

subsection \<open>C3: the status while the task is in its loop\<close>




subsection \<open>C4: a remote image that fails three times\<close>

text \<open>
  C4 says that \<^verbatim>\<open>images_scraped\<close> is not incremented for a candidate whose
  three attempts all return a status other than 200. Line 134 runs whenever
  \<^verbatim>\<open>save_image\<close> returns, and it returns normally in that case. At the sample below the
  task is about to fetch the first of two candidates on a network that answers 404: after
  the step three requests were made, no file exists, and \<^verbatim>\<open>images_scraped\<close> went from 0
  to 1.
\<close>

theorem skipped_fetch_counterexample:
  "background in_loop_404 =
     [Looping ''job-1'' ''cats'' ''GoogleSearchImages/run'' [(1, ''http://a/1.png''), (2, ''http://a/2.png'')]]
   \<and> map_option images_scraped (job_statuses in_loop_404 ''job-1'') = Some 0
   \<and> gets (apply_event (Step env_404 0) in_loop_404) = 3
   \<and> files (apply_event (Step env_404 0) in_loop_404) ''GoogleSearchImages/run/cats_1.jpg'' = None
   \<and> map_option images_scraped (job_statuses (apply_event (Step env_404 0) in_loop_404) ''job-1'') = Some 1"
  by code_simp

text \<open>
  C4, amended. For a URL that does not start with \<^verbatim>\<open>data:image/\<close> and whose three
  attempts all return a status other than 200, \<^verbatim>\<open>save_image\<close> returns without raising
  and changes nothing but the count of requests made (so no file is written); the loop
  pass for that candidate sets \<^verbatim>\<open>images_scraped\<close> to the candidate's index, leaves the
  rest of the record (the status too) as it was, and the task goes on with the next
  candidate.
\<close>

theorem skipped_fetch_is_counted:
  assumes remote: "\<not> prefix ''data:image/'' url"
    and fails: "\<forall>i<3. non_success (http_get w url (gets s + i))"
    and job: "job_statuses s job_id = Some j"
  shows "save_image w url folder file_name 3 s = (None, s\<lparr>gets := gets s + 3\<rparr>)
     \<and> task_step w (Looping job_id query folder ((index, url) # items)) s =
         (Looping job_id query folder items,
          s\<lparr>gets := gets s + 3,
            job_statuses := (job_statuses s)(job_id \<mapsto> j\<lparr>images_scraped := int index\<rparr>)\<rparr>)"
proof -
  have sv: "\<And>f. save_image w url folder f 3 s = (None, s\<lparr>gets := gets s + 3\<rparr>)"
    using fetch_loop_all_fail [OF fails] by (simp add: save_image_remote [OF remote])
  from job have "job_id \<in> dom (job_statuses s)" by blast
  then have "loop_body w job_id query folder (index, url) s =
      (None, s\<lparr>gets := gets s + 3,
            job_statuses := (job_statuses s)(job_id \<mapsto> j\<lparr>images_scraped := int index\<rparr>)\<rparr>)"
    using job by (simp add: loop_body_def sv set_images_scraped_def)
  with sv show ?thesis by simp
qed

theorem skipped_fetch_is_counted_witness:
  "save_image env_404 ''http://a/1.png'' ''GoogleSearchImages/run'' ''cats_1'' 3 in_loop_404 =
     (None, in_loop_404\<lparr>gets := gets in_loop_404 + 3\<rparr>)
   \<and> task_step env_404
        (Looping ''job-1'' ''cats'' ''GoogleSearchImages/run''
           ((1, ''http://a/1.png'') # [(2, ''http://a/2.png'')])) in_loop_404 =
      (Looping ''job-1'' ''cats'' ''GoogleSearchImages/run'' [(2, ''http://a/2.png'')],
       in_loop_404\<lparr>gets := gets in_loop_404 + 3,
         job_statuses := (job_statuses in_loop_404)(''job-1'' \<mapsto>
           \<lparr>status = ''pending'', images_scraped = 0, total_images = Some 2,
            folder_path = ''GoogleSearchImages/run''\<rparr>\<lparr>images_scraped := int 1\<rparr>)\<rparr>)"
proof -
  have remote: "\<not> prefix ''data:image/'' ''http://a/1.png''" by simp
  have fails: "\<forall>i<3. non_success (http_get env_404 ''http://a/1.png'' (gets in_loop_404 + i))"
    by (simp add: env_404_def sample_env_def always_404_def)
  have job: "job_statuses in_loop_404 ''job-1'' =
      Some \<lparr>status = ''pending'', images_scraped = 0, total_images = Some 2,
            folder_path = ''GoogleSearchImages/run''\<rparr>"
    by code_simp
  show ?thesis by (rule skipped_fetch_is_counted [OF remote fails job])
qed

subsection \<open>C9: a request that raises\<close>

text \<open>
  C9. For a URL that does not start with \<^verbatim>\<open>data:image/\<close>: when attempt \<open>k + 1\<close> of the
  three is the first on which \<^verbatim>\<open>requests.get\<close> raises, the earlier ones having returned
  a status other than 200, \<^verbatim>\<open>save_image\<close> raises after exactly \<open>k + 1\<close> requests, without
  making the remaining attempts and without writing a file; the task ends in its handler
  and the job's status is \<^verbatim>\<open>failed\<close>. Only responses with a status other than 200 are retried.
\<close>

theorem get_raises_job_fails:
  assumes remote: "\<not> prefix ''data:image/'' url"
    and k: "k < 3"
    and fails: "\<forall>i<k. non_success (http_get w url (gets s + i))"
    and raises: "http_get w url (gets s + k) = Raises"
    and job: "job_statuses s job_id = Some j"
  shows "save_image w url folder file_name 3 s =
           (Some (HTTPException 500 ''Failed to save image''), s\<lparr>gets := Suc (gets s + k)\<rparr>)
     \<and> task_step w (Looping job_id query folder ((index, url) # items)) s =
         (Ended (Some (HTTPException 500 ''Scraping task failed'')),
          s\<lparr>gets := Suc (gets s + k),
            job_statuses := (job_statuses s)(job_id \<mapsto> j\<lparr>status := ''failed''\<rparr>)\<rparr>)"
proof -
  have sv: "\<And>f. save_image w url folder f 3 s =
      (Some (HTTPException 500 ''Failed to save image''), s\<lparr>gets := Suc (gets s + k)\<rparr>)"
    using fetch_loop_raises [OF k fails raises] by (simp add: save_image_remote [OF remote])
  from job have "job_id \<in> dom (job_statuses s)" by blast
  then have "loop_body w job_id query folder (index, url) s =
      (Some (HTTPException 500 ''Failed to save image''), s\<lparr>gets := Suc (gets s + k)\<rparr>)"
    by (simp add: loop_body_def sv)
  with sv job show ?thesis
    by (simp add: fail_task_def on_error_def set_status_def)
qed

theorem get_raises_job_fails_witness:
  "save_image env_raise ''http://a/1.png'' ''GoogleSearchImages/run'' ''cats_1'' 3 in_loop_raise =
     (Some (HTTPException 500 ''Failed to save image''),
      in_loop_raise\<lparr>gets := Suc (gets in_loop_raise + 1)\<rparr>)
   \<and> task_step env_raise
        (Looping ''job-1'' ''cats'' ''GoogleSearchImages/run''
           ((1, ''http://a/1.png'') # [(2, ''http://a/2.png'')])) in_loop_raise =
      (Ended (Some (HTTPException 500 ''Scraping task failed'')),
       in_loop_raise\<lparr>gets := Suc (gets in_loop_raise + 1),
         job_statuses := (job_statuses in_loop_raise)(''job-1'' \<mapsto>
           \<lparr>status = ''pending'', images_scraped = 0, total_images = Some 2,
            folder_path = ''GoogleSearchImages/run''\<rparr>\<lparr>status := ''failed''\<rparr>)\<rparr>)"
proof -
  have remote: "\<not> prefix ''data:image/'' ''http://a/1.png''" by simp
  have g: "gets in_loop_raise = 0" by code_simp
  have k: "(1::nat) < 3" by simp
  have fails: "\<forall>i<1. non_success (http_get env_raise ''http://a/1.png'' (gets in_loop_raise + i))"
    by (simp add: g env_raise_def sample_env_def raises_second_def)
  have raises: "http_get env_raise ''http://a/1.png'' (gets in_loop_raise + 1) = Raises"
    by (simp add: g env_raise_def sample_env_def raises_second_def)
  have job: "job_statuses in_loop_raise ''job-1'' =
      Some \<lparr>status = ''pending'', images_scraped = 0, total_images = Some 2,
            folder_path = ''GoogleSearchImages/run''\<rparr>"
    by code_simp
  show ?thesis by (rule get_raises_job_fails [OF remote k fails raises job])
qed

subsection \<open>C6: the count never exceeds the requested total\<close>

text \<open>
  C6 is stated for every created job. \<^verbatim>\<open>num_images\<close> is any integer, and nothing
  checks its sign: a request for \<open>- 1\<close> images is stored with \<^verbatim>\<open>total_images\<close> \<open>- 1\<close> and
  \<^verbatim>\<open>images_scraped\<close> 0, and since \<^verbatim>\<open>image_urls[:-1]\<close> drops the last URL only, the task
  then stores two of three images.
\<close>

theorem negative_total_counterexample:
  "get_job_status ''job-1'' (exec [Create env_three (sample_request (- 1))] init) =
      Inr \<lparr>js_job_id = ''job-1'', js_status = ''pending'', js_images_scraped = 0,
           js_total_images = - 1, js_folder_path = ''GoogleSearchImages/run''\<rparr>
   \<and> get_job_status ''job-1'' (exec negative_run init) =
      Inr \<lparr>js_job_id = ''job-1'', js_status = ''completed'', js_images_scraped = 2,
           js_total_images = - 1, js_folder_path = ''GoogleSearchImages/run''\<rparr>"
  by code_simp

text \<open>
  C6, amended. Whatever requests and task steps have happened, with job identifiers that
  do not repeat: for every job whose requested count is an integer that is not negative,
  \<open>0 \<le> images_scraped \<le> total_images\<close> holds in its record, and \<^verbatim>\<open>get_job_status\<close>
  returns exactly these two numbers.
\<close>

theorem images_scraped_le_total:
  assumes "distinct (created_ids evs)"
    and "job_statuses (exec evs init) job_id = Some j"
    and "total_images j = Some n" and "0 \<le> n"
  shows "0 \<le> images_scraped j \<and> images_scraped j \<le> n
     \<and> get_job_status job_id (exec evs init) =
         Inr \<lparr>js_job_id = job_id, js_status = status j, js_images_scraped = images_scraped j,
              js_total_images = n, js_folder_path = folder_path j\<rparr>"
proof -
  from exec_inv [OF assms(1)] assms(2-4)
  have "0 \<le> images_scraped j \<and> images_scraped j \<le> n"
    by (auto simp: service_inv_def jobs_ok_def job_ok_def)
  with assms(2,3) show ?thesis
    by (simp add: get_job_status_def)
qed

theorem images_scraped_le_total_witness:
  "0 \<le> images_scraped \<lparr>status = ''pending'', images_scraped = 1, total_images = Some 2,
           folder_path = ''GoogleSearchImages/run''\<rparr>
   \<and> images_scraped \<lparr>status = ''pending'', images_scraped = 1, total_images = Some 2,
           folder_path = ''GoogleSearchImages/run''\<rparr> \<le> 2
   \<and> get_job_status ''job-1'' (exec after_first init) =
       Inr \<lparr>js_job_id = ''job-1'', js_status = ''pending'', js_images_scraped = 1,
            js_total_images = 2, js_folder_path = ''GoogleSearchImages/run''\<rparr>"
proof -
  have d: "distinct (created_ids after_first)" by (simp add: after_first_def)
  have j: "job_statuses (exec after_first init) ''job-1'' =
      Some \<lparr>status = ''pending'', images_scraped = 1, total_images = Some 2,
            folder_path = ''GoogleSearchImages/run''\<rparr>"
    by code_simp
  have t: "total_images \<lparr>status = ''pending'', images_scraped = 1, total_images = Some 2,
            folder_path = ''GoogleSearchImages/run''\<rparr> = Some 2" by simp
  have n: "(0::int) \<le> 2" by simp
  from images_scraped_le_total [OF d j t n] show ?thesis by simp
qed

subsection \<open>C7: what the extractor returns\<close>

text \<open>
  C7 is stated for every sequence of image elements. On the page \<open>bad_width_imgs\<close>
  the second element has a usable URL and the width \<^verbatim>\<open>abc\<close>: the claim's filter would
  drop it and return the first URL, while \<^verbatim>\<open>scrape_all_images\<close> raises, since \<^verbatim>\<open>int\<close>
  refuses the attribute (lines 88 and 93-95).
\<close>

theorem extractor_raises_counterexample:
  "dom_images env_bad_width = Some bad_width_imgs
   \<and> spec_extract env_bad_width bad_width_imgs = [''http://a/1.png'']
   \<and> scrape_all_images env_bad_width = Inl (HTTPException 500 ''Failed to scrape images'')"
  by code_simp

text \<open>
  C7, amended. For every sequence of image elements in which each element that passes the
  URL test of line 87 has a width and a height that are unset, empty or accepted by
  \<^verbatim>\<open>int\<close>, \<^verbatim>\<open>scrape_all_images\<close> returns exactly \<open>spec_extract\<close>: the URLs (\<^verbatim>\<open>src\<close>, else
  \<^verbatim>\<open>data-src\<close>) of the elements whose URL is not empty and does not contain
  \<^verbatim>\<open>data:image/gif\<close> and whose width and height are both at least 100 (unset or empty
  counting as 0), in the order of the elements, with nothing removed, moved or cut.
\<close>

theorem extractor_returns_filtered_urls:
  assumes "dom_images w = Some images"
    and "\<forall>i \<in> set images. usable_url i \<longrightarrow> dims_parse w i"
  shows "scrape_all_images w = Inr (spec_extract w images)"
  using scrape_loop_spec [OF assms(2), of "[]"] assms(1)
  by (simp add: scrape_all_images_def)

theorem extractor_returns_filtered_urls_witness:
  "scrape_all_images env_mixed = Inr [''http://a/1.png'', ''http://a/lazy.png'', ''http://a/1.png'']"
proof -
  have d: "dom_images env_mixed = Some mixed_imgs" by (simp add: env_mixed_def sample_env_def)
  have p: "\<forall>i \<in> set mixed_imgs. usable_url i \<longrightarrow> dims_parse env_mixed i" by code_simp
  have e: "spec_extract env_mixed mixed_imgs = [''http://a/1.png'', ''http://a/lazy.png'', ''http://a/1.png'']"
    by code_simp
  from extractor_returns_filtered_urls [OF d p] e show ?thesis by simp
qed

subsection \<open>C10: a dimension that is not a number\<close>

text \<open>
  C10 is stated for every element with such a width or height. \<^verbatim>\<open>int\<close> is called
  on line 88 only, inside the test of line 87: on the page \<open>hidden_imgs\<close> the dimensions
  \<^verbatim>\<open>abc\<close> stand on an element without a URL and on an animated placeholder, and the
  extractor returns the remaining URL without raising.
\<close>

theorem hidden_dimension_counterexample:
  "dom_images env_bad_hidden = Some hidden_imgs
   \<and> list_all (\<lambda>i. bad_dimension env_bad_hidden (width i)) (take 2 hidden_imgs)
   \<and> scrape_all_images env_bad_hidden = Inr [''http://a/1.png'']"
  by code_simp

text \<open>
  C10, amended. For every image element that passes the URL test of line 87 (its URL is
  not empty and does not contain \<^verbatim>\<open>data:image/gif\<close>) and whose width or height is present,
  not empty and refused by \<^verbatim>\<open>int\<close>, \<^verbatim>\<open>scrape_all_images\<close> raises, whatever the other
  elements are, and \<^verbatim>\<open>scrape_images_task\<close> raises and leaves the job with the status
  \<^verbatim>\<open>failed\<close>.
\<close>

theorem unparseable_dimension_fails_job:
  assumes dom: "dom_images w = Some images"
    and mem: "i \<in> set images"
    and url: "usable_url i"
    and bad: "bad_dimension w (width i) \<or> bad_dimension w (height i)"
    and job: "job_statuses s job_id = Some j"
  shows "scrape_all_images w = Inl (HTTPException 500 ''Failed to scrape images'')
     \<and> fst (scrape_images_task w job_id query n folder s) =
         Some (HTTPException 500 ''Scraping task failed'')
     \<and> job_statuses (snd (scrape_images_task w job_id query n folder s)) job_id =
         Some (j\<lparr>status := ''failed''\<rparr>)"
proof -
  from bad have "\<not> dims_parse w i" by (auto simp: dims_parse_def bad_dimension_iff)
  from scrape_loop_raises [OF mem url this, of "[]"] dom
  have ex: "scrape_all_images w = Inl (HTTPException 500 ''Failed to scrape images'')"
    by (simp add: scrape_all_images_def)
  from open_page_raises [OF ex] obtain e' s' where op: "open_page w query n s = (Inl e', s')" by blast
  from open_page_frame [OF op] job have "job_statuses s' job_id = Some j" by simp
  from on_error_failed [OF this] op ex show ?thesis
    by (simp add: scrape_images_task_def)
qed

theorem unparseable_dimension_fails_job_witness:
  "scrape_all_images env_bad_width = Inl (HTTPException 500 ''Failed to scrape images'')
   \<and> fst (scrape_images_task env_bad_width ''job-1'' ''cats'' (Some 2) ''GoogleSearchImages/run''
          (exec [Create env_bad_width (sample_request 2)] init))
       = Some (HTTPException 500 ''Scraping task failed'')
   \<and> job_statuses (snd (scrape_images_task env_bad_width ''job-1'' ''cats'' (Some 2)
          ''GoogleSearchImages/run'' (exec [Create env_bad_width (sample_request 2)] init))) ''job-1''
       = Some (\<lparr>status = ''pending'', images_scraped = 0, total_images = Some 2,
            folder_path = ''GoogleSearchImages/run''\<rparr>\<lparr>status := ''failed''\<rparr>)"
proof -
  have dom: "dom_images env_bad_width = Some bad_width_imgs"
    by (simp add: env_bad_width_def sample_env_def)
  have mem: "sample_img ''http://a/2.png'' ''abc'' \<in> set bad_width_imgs"
    by (simp add: bad_width_imgs_def)
  have url: "usable_url (sample_img ''http://a/2.png'' ''abc'')" by code_simp
  have bad: "bad_dimension env_bad_width (width (sample_img ''http://a/2.png'' ''abc''))
      \<or> bad_dimension env_bad_width (height (sample_img ''http://a/2.png'' ''abc''))" by code_simp
  have job: "job_statuses (exec [Create env_bad_width (sample_request 2)] init) ''job-1'' =
      Some \<lparr>status = ''pending'', images_scraped = 0, total_images = Some 2,
            folder_path = ''GoogleSearchImages/run''\<rparr>"
    by code_simp
  show ?thesis by (rule unparseable_dimension_fails_job [OF dom mem url bad job])
qed

subsection \<open>C1: terminal states\<close>

text \<open>
  C1 says that a status of Completed, Failed or Cancelled never changes again. That holds
  for Completed and Failed (\<open>finished_record_is_final\<close>); the code departs from it for
  Cancelled. \<^verbatim>\<open>cancel_job\<close> writes \<^verbatim>\<open>cancelled\<close> into the record and
  keeps the key; the test of line 131, commented as the check that the job was not
  cancelled, asks for the key only, so it always succeeds; and line 136 writes
  \<^verbatim>\<open>completed\<close> whatever the status was. Here a job is created and cancelled, and then
  its task runs: the status goes from \<^verbatim>\<open>cancelled\<close> to \<^verbatim>\<open>completed\<close>.
\<close>

theorem cancelled_job_is_completed:
  "map_option status (job_statuses (exec cancelled_first init) ''job-1'') = Some ''cancelled''
   \<and> map_option status
        (job_statuses (snd (scrape_images_task env_one ''job-1'' ''cats'' (Some 1)
                               ''GoogleSearchImages/run'' (exec cancelled_first init))) ''job-1'')
       = Some ''completed''"
  by code_simp

subsection \<open>C2: no scraping after cancellation\<close>

text \<open>
  C2 says that after a pending job is cancelled no image is scraped for it, its count
  stays, and its record stays Cancelled. \<^verbatim>\<open>cancel_job\<close> does make the transition
  (\<open>cancel_job_pending\<close>), but the task does not see it, for the reason given at C1. Here
  the same job is polled after the cancellation and after three steps of its task: the
  count went from 0 to 1, the status from \<^verbatim>\<open>cancelled\<close> to \<^verbatim>\<open>completed\<close>, and the image
  file was written.
\<close>

theorem cancelled_job_is_scraped:
  "get_job_status ''job-1'' (exec cancelled_first init) =
     Inr \<lparr>js_job_id = ''job-1'', js_status = ''cancelled'', js_images_scraped = 0,
          js_total_images = 1, js_folder_path = ''GoogleSearchImages/run''\<rparr>
   \<and> get_job_status ''job-1''
        (exec (cancelled_first @ [Step env_one 0, Status ''job-1'', Step env_one 0, Step env_one 0]) init) =
     Inr \<lparr>js_job_id = ''job-1'', js_status = ''completed'', js_images_scraped = 1,
          js_total_images = 1, js_folder_path = ''GoogleSearchImages/run''\<rparr>
   \<and> files (exec (cancelled_first @ [Step env_one 0, Status ''job-1'', Step env_one 0, Step env_one 0]) init)
        ''GoogleSearchImages/run/cats_1.jpg'' = Some ''bytes''"
  by code_simp

subsection \<open>C5: a malformed inline payload, and closing the browser\<close>

text \<open>
  C5 says that a malformed inline payload fails the job at once, that no later candidate
  is processed, and that the browser is closed on every way out. The first two hold
  (\<open>malformed_inline_fails_job\<close>). \<^verbatim>\<open>driver.quit()\<close> stands on line 137 only, at the end
  of the \<^verbatim>\<open>try\<close> block, and the handler of lines 139-142 does not call it
  (\<open>browser_quit_only_on_success\<close>). Here the first candidate is an inline payload that
  cannot be decoded: the job is \<^verbatim>\<open>failed\<close>, no file was written and no request was made
  for the second candidate, and one browser is left open, where the run \<open>one_done\<close> that
  succeeds leaves none.
\<close>

theorem browser_left_open_on_failure:
  "map_option status (job_statuses malformed_run ''job-1'') = Some ''failed''
   \<and> files malformed_run ''GoogleSearchImages/run/cats_1.jpg'' = None
   \<and> files malformed_run ''GoogleSearchImages/run/cats_2.jpg'' = None
   \<and> gets malformed_run = 0
   \<and> open_drivers malformed_run = 1
   \<and> open_drivers one_done = 0"
  by code_simp

end
